theory Spec2Isabelle
  imports Main "HOL-Library.Word" "HOL-Library.Sublist"
begin

unbundle bit_operations_syntax

section \<open>JavaScript strings\<close>

text \<open>
  A JavaScript string is a sequence of 16-bit code units. Literals are written with
  \<open>js\<close>, which maps every character of an Isabelle string to the code unit of the
  same number.
\<close>

type_synonym jschar = "16 word"
type_synonym jsstring = "jschar list"

definition js :: "string \<Rightarrow> jsstring" where
  "js s = map of_char s"

abbreviation SQ :: jschar where "SQ \<equiv> 0x27"
abbreviation DQ :: jschar where "DQ \<equiv> 0x22"
abbreviation BSL :: jschar where "BSL \<equiv> 0x5C"
abbreviation TAB :: jschar where "TAB \<equiv> 0x09"
abbreviation LF :: jschar where "LF \<equiv> 0x0A"
abbreviation CR :: jschar where "CR \<equiv> 0x0D"
abbreviation SP :: jschar where "SP \<equiv> 0x20"

text \<open>
  \<open>s.replace(/c/g, r)\<close> for a pattern that matches exactly the one code unit \<open>c\<close>
  and a replacement text \<open>r\<close> without \<open>$\<close>: the matches are found left to right in
  the original string, and the replacement text is never searched again.
\<close>

primrec replace_all :: "jschar \<Rightarrow> jsstring \<Rightarrow> jsstring \<Rightarrow> jsstring" where
  "replace_all c r [] = []"
| "replace_all c r (x # xs) =
     (if x = c then r @ replace_all c r xs else x # replace_all c r xs)"

text \<open>\<open>s.startsWith(p)\<close>: the first \<open>length p\<close> code units of \<open>s\<close> are \<open>p\<close>.\<close>

definition startsWith :: "jsstring \<Rightarrow> jsstring \<Rightarrow> bool" where
  "startsWith s p = (take (length p) s = p)"


section \<open>The escaping functions and the URL guard\<close>

text \<open>
  \<^verbatim>\<open>return "'" + arg.replace(/'/g, "'\\''") + "'";\<close>
  The replacement text is the four code units quote, backslash, quote, quote.
\<close>

definition shellEscape :: "jsstring \<Rightarrow> jsstring" where
  "shellEscape arg = [SQ] @ replace_all SQ [SQ, BSL, SQ, SQ] arg @ [SQ]"

text \<open>
  \<^verbatim>\<open>return s.replace(/\\/g, "\\\\").replace(/"/g, '\\"');\<close>
\<close>

definition escapeAppleScript :: "jsstring \<Rightarrow> jsstring" where
  "escapeAppleScript s = replace_all DQ [BSL, DQ] (replace_all BSL [BSL, BSL] s)"

datatype js_error = JsError jsstring

text \<open>
  \<open>validateUrl\<close> returns nothing or throws; the thrown error carries the message
  built by the template literal.
\<close>

definition validateUrl :: "jsstring \<Rightarrow> jsstring \<Rightarrow> js_error + unit" where
  "validateUrl url label =
     (if \<not> startsWith url (js ''https://'') \<and> \<not> startsWith url (js ''http://'')
      then Inl (JsError (js ''['' @ label @ js ''] Invalid url: must be http(s), got ''
                          @ [DQ] @ url @ [DQ]))
      else Inr ())"


section \<open>The runtime: buffers, strings and JSON\<close>

text \<open>
  The tail reader calls the runtime for decoding a buffer, for splitting and trimming
  strings and for parsing JSON. These are modelled after their standards: the UTF-8
  decoder of the Encoding standard, \<open>String.prototype.split\<close> and
  \<open>String.prototype.trim\<close> of ECMAScript, and the JSON grammar of ECMA-404 as
  \<open>JSON.parse\<close> accepts it.
\<close>

subsection \<open>Decoding a buffer as UTF-8\<close>

text \<open>
  The decoder runs over the bytes with the code point collected so far, the number of
  continuation bytes still needed and the bounds for the next byte. A byte that cannot
  continue the sequence yields U+FFFD and is read again as the start of a new sequence;
  an unfinished sequence at the end yields U+FFFD; a code point above U+FFFF becomes a
  surrogate pair. A byte order mark is kept, as \<open>Buffer.toString\<close> keeps it.
\<close>

type_synonym byte = "8 word"

abbreviation REPLACEMENT :: jschar where "REPLACEMENT \<equiv> 0xFFFD"

definition utf16_units :: "nat \<Rightarrow> jsstring" where
  "utf16_units cp =
     (if cp < 0x10000 then [of_nat cp]
      else [of_nat (0xD800 + (cp - 0x10000) div 0x400),
            of_nat (0xDC00 + (cp - 0x10000) mod 0x400)])"

function utf8_decode :: "nat \<Rightarrow> nat \<Rightarrow> nat \<Rightarrow> nat \<Rightarrow> byte list \<Rightarrow> jsstring" where
  "utf8_decode cp needed lo hi [] = (if needed \<noteq> 0 then [REPLACEMENT] else [])"
| "utf8_decode cp needed lo hi (b # bs) =
     (let v = unat b in
      if needed = 0 then
        (if v \<le> 0x7F then of_nat v # utf8_decode 0 0 0x80 0xBF bs
         else if 0xC2 \<le> v \<and> v \<le> 0xDF then utf8_decode (v - 0xC0) 1 0x80 0xBF bs
         else if 0xE0 \<le> v \<and> v \<le> 0xEF then
           utf8_decode (v - 0xE0) 2 (if v = 0xE0 then 0xA0 else 0x80)
             (if v = 0xED then 0x9F else 0xBF) bs
         else if 0xF0 \<le> v \<and> v \<le> 0xF4 then
           utf8_decode (v - 0xF0) 3 (if v = 0xF0 then 0x90 else 0x80)
             (if v = 0xF4 then 0x8F else 0xBF) bs
         else REPLACEMENT # utf8_decode 0 0 0x80 0xBF bs)
      else if v < lo \<or> hi < v then REPLACEMENT # utf8_decode 0 0 0x80 0xBF (b # bs)
      else
        (let cp' = cp * 64 + (v - 0x80) in
         if needed = 1 then utf16_units cp' @ utf8_decode 0 0 0x80 0xBF bs
         else utf8_decode cp' (needed - 1) 0x80 0xBF bs))"
  by pat_completeness auto
termination
  by (relation "measure (\<lambda>(cp, needed, lo, hi, bs). 2 * length bs + (if needed = 0 then 0 else 1))")
     auto

text \<open>\<open>Buffer.alloc(n)\<close> is \<open>n\<close> zero bytes; \<open>buffer.toString("utf-8", start, end)\<close> decodes the bytes from \<open>start\<close> up to \<open>end\<close>.\<close>

definition Buffer_alloc :: "nat \<Rightarrow> byte list" where
  "Buffer_alloc n = replicate n 0"

definition Buffer_toString_utf8 :: "byte list \<Rightarrow> nat \<Rightarrow> nat \<Rightarrow> jsstring" where
  "Buffer_toString_utf8 buffer start end = utf8_decode 0 0 0x80 0xBF (take (end - start) (drop start buffer))"


subsection \<open>split and trim\<close>

text \<open>
  \<open>s.split(sep)\<close> for a separator of one code unit: the pieces between the
  separators, in order; a string without separator is one piece, the empty string
  included. \<open>s.trim()\<close> removes the white space and line terminators of ECMAScript
  from both ends.
\<close>

primrec split_on :: "jschar \<Rightarrow> jsstring \<Rightarrow> jsstring list" where
  "split_on sep [] = [[]]"
| "split_on sep (c # cs) =
     (if c = sep then [] # split_on sep cs
      else (case split_on sep cs of
              [] \<Rightarrow> [[c]]
            | l # ls \<Rightarrow> (c # l) # ls))"

definition is_white_space :: "jschar \<Rightarrow> bool" where
  "is_white_space c \<longleftrightarrow>
     c \<in> set [0x09, 0x0A, 0x0B, 0x0C, 0x0D, 0x20, 0xA0, 0x1680, 0x2028, 0x2029, 0x202F,
              0x205F, 0x3000, 0xFEFF]
     \<or> (0x2000 \<le> c \<and> c \<le> 0x200A)"

definition trim :: "jsstring \<Rightarrow> jsstring" where
  "trim s = rev (dropWhile is_white_space (rev (dropWhile is_white_space s)))"


subsection \<open>JSON.parse\<close>

text \<open>
  A parsed value. Of a number only its text is kept: the reader never looks at the value
  of a number. The members of an object are kept in the order of the text; where a name
  occurs twice, the later member is the property of the object.
\<close>

datatype json =
    JNull
  | JBool bool
  | JNumber jsstring
  | JString jsstring
  | JArray "json list"
  | JObject "(jsstring \<times> json) list"

text \<open>
  The text is cut into tokens first. White space between tokens is space, tab, line feed
  and carriage return only. A string may not contain a control character below U+0020;
  a backslash introduces one of the escapes of the grammar. A number is an optional
  minus, an integer part without leading zero, an optional fraction and an optional
  exponent.
\<close>

datatype token =
    TLBrace | TRBrace | TLBracket | TRBracket | TColon | TComma
  | TString jsstring | TNumber jsstring | TTrue | TFalse | TNull

definition is_json_ws :: "jschar \<Rightarrow> bool" where
  "is_json_ws c \<longleftrightarrow> c = SP \<or> c = TAB \<or> c = LF \<or> c = CR"

definition is_digit :: "jschar \<Rightarrow> bool" where
  "is_digit c \<longleftrightarrow> 0x30 \<le> c \<and> c \<le> 0x39"

definition hex_value :: "jschar \<Rightarrow> nat option" where
  "hex_value c =
     (if 0x30 \<le> c \<and> c \<le> 0x39 then Some (unat c - 0x30)
      else if 0x41 \<le> c \<and> c \<le> 0x46 then Some (unat c - 0x41 + 10)
      else if 0x61 \<le> c \<and> c \<le> 0x66 then Some (unat c - 0x61 + 10)
      else None)"

definition simple_escape :: "jschar \<Rightarrow> jschar option" where
  "simple_escape e =
     (if e = DQ then Some DQ
      else if e = BSL then Some BSL
      else if e = 0x2F then Some 0x2F
      else if e = 0x62 then Some 0x08
      else if e = 0x66 then Some 0x0C
      else if e = 0x6E then Some LF
      else if e = 0x72 then Some CR
      else if e = 0x74 then Some TAB
      else None)"

fun lex_string :: "jsstring \<Rightarrow> (jsstring \<times> jsstring) option" where
  "lex_string [] = None"
| "lex_string (c # cs) =
     (if c = DQ then Some ([], cs)
      else if c < 0x20 then None
      else if c = BSL then
        (case cs of
           [] \<Rightarrow> None
         | e # es \<Rightarrow>
             if e = 0x75 then
               (case es of
                  h1 # h2 # h3 # h4 # r \<Rightarrow>
                    (case (hex_value h1, hex_value h2, hex_value h3, hex_value h4) of
                       (Some a, Some b, Some c, Some d) \<Rightarrow>
                         map_option (\<lambda>(v, rest). (of_nat (((a * 16 + b) * 16 + c) * 16 + d) # v, rest))
                           (lex_string r)
                     | _ \<Rightarrow> None)
                | _ \<Rightarrow> None)
             else
               (case simple_escape e of
                  None \<Rightarrow> None
                | Some x \<Rightarrow> map_option (\<lambda>(v, rest). (x # v, rest)) (lex_string es)))
      else map_option (\<lambda>(v, rest). (c # v, rest)) (lex_string cs))"

definition lex_digits :: "jsstring \<Rightarrow> (jsstring \<times> jsstring) option" where
  "lex_digits s =
     (if takeWhile is_digit s = [] then None
      else Some (takeWhile is_digit s, dropWhile is_digit s))"

definition lex_int :: "jsstring \<Rightarrow> (jsstring \<times> jsstring) option" where
  "lex_int s =
     (case s of
        [] \<Rightarrow> None
      | c # cs \<Rightarrow>
          if c = 0x30 then Some ([c], cs)
          else if is_digit c then Some (c # takeWhile is_digit cs, dropWhile is_digit cs)
          else None)"

definition lex_frac :: "jsstring \<Rightarrow> (jsstring \<times> jsstring) option" where
  "lex_frac s =
     (case s of
        [] \<Rightarrow> Some ([], [])
      | c # cs \<Rightarrow>
          if c = 0x2E then map_option (\<lambda>(ds, rest). (c # ds, rest)) (lex_digits cs)
          else Some ([], s))"

definition lex_exp :: "jsstring \<Rightarrow> (jsstring \<times> jsstring) option" where
  "lex_exp s =
     (case s of
        [] \<Rightarrow> Some ([], [])
      | c # cs \<Rightarrow>
          if c = 0x65 \<or> c = 0x45 then
            (case cs of
               [] \<Rightarrow> None
             | d # ds \<Rightarrow>
                 if d = 0x2B \<or> d = 0x2D
                 then map_option (\<lambda>(xs, rest). (c # d # xs, rest)) (lex_digits ds)
                 else map_option (\<lambda>(xs, rest). (c # xs, rest)) (lex_digits cs))
          else Some ([], s))"

definition lex_sign :: "jsstring \<Rightarrow> jsstring \<times> jsstring" where
  "lex_sign s = (case s of [] \<Rightarrow> ([], []) | c # cs \<Rightarrow> if c = 0x2D then ([c], cs) else ([], s))"

definition lex_number :: "jsstring \<Rightarrow> (jsstring \<times> jsstring) option" where
  "lex_number s =
     (case lex_sign s of (sign, s0) \<Rightarrow>
        case lex_int s0 of
           None \<Rightarrow> None
         | Some (i, s1) \<Rightarrow>
             (case lex_frac s1 of
                None \<Rightarrow> None
              | Some (f, s2) \<Rightarrow>
                  (case lex_exp s2 of
                     None \<Rightarrow> None
                   | Some (e, s3) \<Rightarrow> Some (sign @ i @ f @ e, s3))))"


function lex :: "jsstring \<Rightarrow> token list option" where
  "lex [] = Some []"
| "lex (c # cs) =
     (if is_json_ws c then lex cs
      else if c = 0x7B then map_option ((#) TLBrace) (lex cs)
      else if c = 0x7D then map_option ((#) TRBrace) (lex cs)
      else if c = 0x5B then map_option ((#) TLBracket) (lex cs)
      else if c = 0x5D then map_option ((#) TRBracket) (lex cs)
      else if c = 0x3A then map_option ((#) TColon) (lex cs)
      else if c = 0x2C then map_option ((#) TComma) (lex cs)
      else if c = DQ then
        (case lex_string cs of
           None \<Rightarrow> None
         | Some (v, rest) \<Rightarrow> map_option ((#) (TString v)) (lex rest))
      else if c = 0x2D \<or> is_digit c then
        (case lex_number (c # cs) of
           None \<Rightarrow> None
         | Some (n, rest) \<Rightarrow> map_option ((#) (TNumber n)) (lex rest))
      else if take 4 (c # cs) = js ''true'' then map_option ((#) TTrue) (lex (drop 3 cs))
      else if take 5 (c # cs) = js ''false'' then map_option ((#) TFalse) (lex (drop 4 cs))
      else if take 4 (c # cs) = js ''null'' then map_option ((#) TNull) (lex (drop 3 cs))
      else None)"
  by pat_completeness auto
termination
proof -
  have str: "length r \<le> length cs" if "lex_string cs = Some (v, r)" for cs v r
    using that
    by (induction cs arbitrary: v r rule: lex_string.induct)
       (fastforce split: if_splits list.splits option.splits)+
  have digs: "length r \<le> length s" if "lex_digits s = Some (v, r)" for s v r
    using that by (auto simp: lex_digits_def length_dropWhile_le split: if_splits)
  have int: "length r < length s" if "lex_int s = Some (v, r)" for s v r
    using that by (auto simp: lex_int_def less_Suc_eq_le length_dropWhile_le split: if_splits list.splits)
  have frac: "length r \<le> length s" if "lex_frac s = Some (v, r)" for s v r
    using that digs by (fastforce simp: lex_frac_def split: if_splits list.splits)
  have exp: "length r \<le> length s" if "lex_exp s = Some (v, r)" for s v r
    using that digs by (fastforce simp: lex_exp_def split: if_splits list.splits)
  have num: "length r < length s" if "lex_number s = Some (v, r)" for s v r
  proof -
    have s0: "length (snd (lex_sign s)) \<le> length s"
      by (simp add: lex_sign_def split: list.splits)
    from that obtain i s1 f s2 e where
      i: "lex_int (snd (lex_sign s)) = Some (i, s1)"
      and f: "lex_frac s1 = Some (f, s2)" and e: "lex_exp s2 = Some (e, r)"
      by (auto simp: lex_number_def split: option.splits prod.splits)
    from int[OF i] frac[OF f] exp[OF e] s0 show ?thesis by simp
  qed
  show ?thesis
    by (relation "measure length") (auto dest: str num)
qed


text \<open>
  The tokens are read by a pushdown automaton for the grammar
  \<open>value = literal | string | number | [ value, ... ] | { string : value, ... }\<close>.
  The stack holds the arrays and objects that are open, each with the elements or
  members read so far (latest first) and, for an object, the name that waits for its
  value. \<open>JSON.parse\<close> has a value exactly when the whole text is one value.
\<close>

datatype frame =
    FArray "json list"
  | FObject "(jsstring \<times> json) list" jsstring

datatype pstate =
    PValue "frame list"
  | PArrayOpen "frame list"
  | PArrayNext "json list" "frame list"
  | PObjectOpen "frame list"
  | PObjectKey "(jsstring \<times> json) list" "frame list"
  | PObjectColon "(jsstring \<times> json) list" jsstring "frame list"
  | PObjectNext "(jsstring \<times> json) list" "frame list"
  | PDone json

fun deliver :: "json \<Rightarrow> frame list \<Rightarrow> pstate" where
  "deliver v [] = PDone v"
| "deliver v (FArray es # stack) = PArrayNext (v # es) stack"
| "deliver v (FObject ms k # stack) = PObjectNext ((k, v) # ms) stack"

fun begin_value :: "frame list \<Rightarrow> token \<Rightarrow> pstate option" where
  "begin_value stack TLBracket = Some (PArrayOpen stack)"
| "begin_value stack TLBrace = Some (PObjectOpen stack)"
| "begin_value stack (TString s) = Some (deliver (JString s) stack)"
| "begin_value stack (TNumber n) = Some (deliver (JNumber n) stack)"
| "begin_value stack TTrue = Some (deliver (JBool True) stack)"
| "begin_value stack TFalse = Some (deliver (JBool False) stack)"
| "begin_value stack TNull = Some (deliver JNull stack)"
| "begin_value stack _ = None"

fun pstep :: "pstate \<Rightarrow> token \<Rightarrow> pstate option" where
  "pstep (PValue stack) t = begin_value stack t"
| "pstep (PArrayOpen stack) t =
     (if t = TRBracket then Some (deliver (JArray []) stack)
      else begin_value (FArray [] # stack) t)"
| "pstep (PArrayNext es stack) t =
     (if t = TComma then Some (PValue (FArray es # stack))
      else if t = TRBracket then Some (deliver (JArray (rev es)) stack)
      else None)"
| "pstep (PObjectOpen stack) t =
     (case t of
        TRBrace \<Rightarrow> Some (deliver (JObject []) stack)
      | TString k \<Rightarrow> Some (PObjectColon [] k stack)
      | _ \<Rightarrow> None)"
| "pstep (PObjectKey ms stack) t =
     (case t of TString k \<Rightarrow> Some (PObjectColon ms k stack) | _ \<Rightarrow> None)"
| "pstep (PObjectColon ms k stack) t =
     (if t = TColon then Some (PValue (FObject ms k # stack)) else None)"
| "pstep (PObjectNext ms stack) t =
     (if t = TComma then Some (PObjectKey ms stack)
      else if t = TRBrace then Some (deliver (JObject (rev ms)) stack)
      else None)"
| "pstep (PDone v) t = None"

fun prun :: "pstate \<Rightarrow> token list \<Rightarrow> json option" where
  "prun st [] = (case st of PDone v \<Rightarrow> Some v | _ \<Rightarrow> None)"
| "prun st (t # ts) = (case pstep st t of None \<Rightarrow> None | Some st' \<Rightarrow> prun st' ts)"

definition JSON_parse :: "jsstring \<Rightarrow> json option" where
  "JSON_parse text = (case lex text of None \<Rightarrow> None | Some ts \<Rightarrow> prun (PValue []) ts)"

text \<open>
  \<open>typeof\<close>, \<open>Array.isArray\<close> and the reading of a property of a parsed value. A
  property that an object does not have is \<open>undefined\<close>, here \<open>None\<close>; the
  \<open>typeof\<close> of a property is \<open>"string"\<close> exactly when the property is there and is
  a \<open>JString\<close>.
\<close>

fun typeof_json :: "json \<Rightarrow> string" where
  "typeof_json JNull = ''object''"
| "typeof_json (JBool b) = ''boolean''"
| "typeof_json (JNumber n) = ''number''"
| "typeof_json (JString s) = ''string''"
| "typeof_json (JArray es) = ''object''"
| "typeof_json (JObject ms) = ''object''"

fun Array_isArray :: "json \<Rightarrow> bool" where
  "Array_isArray (JArray es) = True"
| "Array_isArray _ = False"

fun get_property :: "json \<Rightarrow> jsstring \<Rightarrow> json option" where
  "get_property (JObject ms) k = map_of (rev ms) k"
| "get_property _ k = None"


section \<open>The file system\<close>

text \<open>
  The file system answers four calls, each of which may fail: opening a path, the status
  of an open handle, a read of at most \<open>len\<close> bytes at a position, and closing the
  handle. A file system is given by its answers to these calls; a read may deliver fewer
  bytes than asked for.
\<close>

datatype io_error = ENOENT | EACCES | EISDIR | EIO | EBADF

type_synonym date = int
type_synonym fd = nat

record stats =
  st_size :: nat
  st_mtime :: date

record file_system =
  sys_open :: "jsstring \<Rightarrow> io_error + fd"
  sys_fstat :: "fd \<Rightarrow> io_error + stats"
  sys_read :: "fd \<Rightarrow> nat \<Rightarrow> nat \<Rightarrow> io_error + byte list"
  sys_close :: "fd \<Rightarrow> io_error + unit"

datatype io_call =
    Open jsstring
  | Fstat fd
  | Read fd nat nat "io_error + byte list"
  | Close fd

text \<open>
  The calls on the file system run in a log. Each call of the reader answers from the
  file system and writes itself at the end of the log, a read together with what it has
  delivered: the error, or the bytes stored into the buffer. A computation takes the log
  so far and gives its result and the log after it; the reader has no other way to the
  file system and no other way to the log than these four calls.
\<close>

type_synonym 'a io = "io_call list \<Rightarrow> 'a \<times> io_call list"

text \<open>\<open>open(filePath, "r")\<close>, \<open>fh.stat()\<close> and \<open>fh.close()\<close>.\<close>

definition fs_open :: "file_system \<Rightarrow> jsstring \<Rightarrow> (io_error + fd) io" where
  "fs_open fs path calls = (sys_open fs path, calls @ [Open path])"

definition fh_stat :: "file_system \<Rightarrow> fd \<Rightarrow> (io_error + stats) io" where
  "fh_stat fs fh calls = (sys_fstat fs fh, calls @ [Fstat fh])"

definition fh_close :: "file_system \<Rightarrow> fd \<Rightarrow> (io_error + unit) io" where
  "fh_close fs fh calls = (sys_close fs fh, calls @ [Close fh])"

text \<open>
  \<open>fh.read(buffer, offset, length, position)\<close>: at most \<open>length\<close> bytes read at
  \<open>position\<close> are stored into the buffer from \<open>offset\<close> on; the call gives the
  number of bytes read and the buffer.
\<close>

definition fh_read ::
  "file_system \<Rightarrow> fd \<Rightarrow> byte list \<Rightarrow> nat \<Rightarrow> nat \<Rightarrow> nat \<Rightarrow> (io_error + (nat \<times> byte list)) io" where
  "fh_read fs fh buffer offset len position calls =
     (case sys_read fs fh len position of
        Inl e \<Rightarrow> (Inl e, calls @ [Read fh len position (Inl e)])
      | Inr bytes \<Rightarrow>
          (let got = take len bytes
           in (Inr (length got, take offset buffer @ got @ drop (offset + length got) buffer),
               calls @ [Read fh len position (Inr got)])))"

text \<open>
  The file system in which \<open>path\<close> names a readable regular file with the given
  content and modification time, and no call on its handle fails.
\<close>

definition regular_file :: "jsstring \<Rightarrow> byte list \<Rightarrow> date \<Rightarrow> file_system" where
  "regular_file path content t =
     \<lparr> sys_open = (\<lambda>p. if p = path then Inr 3 else Inl ENOENT),
       sys_fstat = (\<lambda>fh. if fh = 3 then Inr \<lparr>st_size = length content, st_mtime = t\<rparr> else Inl EBADF),
       sys_read = (\<lambda>fh len position. if fh = 3 then Inr (take len (drop position content)) else Inl EBADF),
       sys_close = (\<lambda>fh. if fh = 3 then Inr () else Inl EBADF) \<rparr>"

section \<open>The tail reader\<close>

definition TAIL_READ_BYTES :: nat where
  "TAIL_READ_BYTES = 4096"

record tail_result =
  lastType :: "jsstring option"
  modifiedAt :: date

datatype 'a completion = Returned 'a | Rejected io_error

text \<open>
  The \<open>for\<close> loop of the reader: \<open>scan_lines lines n\<close> is the loop entered with
  \<open>i = n - 1\<close>. \<open>Some t\<close> is the return from inside the loop with the type
  \<open>t\<close>; \<open>None\<close> is the loop running to its end. A \<open>JSON.parse\<close> that throws is
  caught and the loop goes on. The test \<open>typeof obj.type === "string"\<close> is the match
  of the property against \<open>JString\<close>.
\<close>

fun scan_lines :: "jsstring list \<Rightarrow> nat \<Rightarrow> jsstring option" where
  "scan_lines lines 0 = None"
| "scan_lines lines (Suc i) =
     (let line = lines ! i in
      if line = [] then scan_lines lines i
      else
        (let trimmed = trim line in
         if trimmed = [] then scan_lines lines i
         else
           (case JSON_parse trimmed of
              None \<Rightarrow> scan_lines lines i
            | Some parsed \<Rightarrow>
                if typeof_json parsed = ''object'' \<and> parsed \<noteq> JNull \<and> \<not> Array_isArray parsed
                then
                  (case get_property parsed (js ''type'') of
                     Some (JString t) \<Rightarrow> Some t
                   | _ \<Rightarrow> scan_lines lines i)
                else scan_lines lines i)))"

text \<open>
  The \<open>try\<close> block after the file is open: status, the early return on size 0, the
  read of the window, decoding, splitting and the loop. The result is the value returned
  or the error thrown; the log is threaded through the calls.
\<close>

definition try_block :: "file_system \<Rightarrow> fd \<Rightarrow> (io_error + tail_result option) io" where
  "try_block fs fh calls =
     (case fh_stat fs fh calls of
        (Inl e, calls1) \<Rightarrow> (Inl e, calls1)
      | (Inr fileStat, calls1) \<Rightarrow>
          (let size = st_size fileStat in
           if size = 0 then (Inr None, calls1)
           else
             (let readSize = min TAIL_READ_BYTES size;
                  buffer = Buffer_alloc readSize
              in case fh_read fs fh buffer 0 readSize (size - readSize) calls1 of
                   (Inl e, calls2) \<Rightarrow> (Inl e, calls2)
                 | (Inr (bytesRead, buffer'), calls2) \<Rightarrow>
                     (let chunk = Buffer_toString_utf8 buffer' 0 bytesRead;
                          lines = split_on LF chunk
                      in (Inr (Some (case scan_lines lines (length lines) of
                                       Some t \<Rightarrow> \<lparr>lastType = Some t, modifiedAt = st_mtime fileStat\<rparr>
                                     | None \<Rightarrow> \<lparr>lastType = None, modifiedAt = st_mtime fileStat\<rparr>)),
                          calls2)))))"

text \<open>
  The whole function, started on the empty log. An error thrown in the \<open>try\<close> block,
  the failure to open included, is caught and \<open>null\<close> (here \<open>None\<close>) returned. The
  \<open>finally\<close> block closes the handle if there is one; a failing close rejects the call
  whatever the \<open>try\<close> block has returned.
\<close>

definition readLastJsonlEntry ::
  "file_system \<Rightarrow> jsstring \<Rightarrow> tail_result option completion \<times> io_call list" where
  "readLastJsonlEntry fs filePath =
     (case fs_open fs filePath [] of
        (Inl e, calls1) \<Rightarrow> (Returned None, calls1)
      | (Inr fh, calls1) \<Rightarrow>
          (case try_block fs fh calls1 of
             (r, calls2) \<Rightarrow>
               (let result = (case r of Inl e \<Rightarrow> None | Inr v \<Rightarrow> v)
                in case fh_close fs fh calls2 of
                     (Inl e, calls3) \<Rightarrow> (Rejected e, calls3)
                   | (Inr u, calls3) \<Rightarrow> (Returned result, calls3))))"


section \<open>The readers of the escaped text\<close>

subsection \<open>A word of the POSIX shell\<close>

text \<open>
  The quoting rules of the POSIX shell command language, as far as one word built from
  single-quoted parts, backslash escapes and ordinary characters needs them. Inside
  single quotes every character stands for itself up to the next single quote. Outside
  quotes a backslash keeps the next character (a backslash before a newline is a line
  continuation and vanishes), a single quote opens a quoted part, and every character
  that would end the word or start an expansion, a pattern or another kind of quoting is
  refused: the text is then not one plain word.
\<close>

datatype sh_mode = Unquoted | InSingle

definition sh_special :: "jschar \<Rightarrow> bool" where
  "sh_special c \<longleftrightarrow> c \<in> set (js ''|&;<>()$`*?[#~=%!{}'') \<or> c = DQ \<or> c = SP \<or> c = TAB \<or> c = LF"

fun sh_word :: "sh_mode \<Rightarrow> jsstring \<Rightarrow> jsstring option" where
  "sh_word Unquoted [] = Some []"
| "sh_word InSingle [] = None"
| "sh_word InSingle (c # cs) =
     (if c = SQ then sh_word Unquoted cs
      else map_option ((#) c) (sh_word InSingle cs))"
| "sh_word Unquoted (c # cs) =
     (if c = SQ then sh_word InSingle cs
      else if c = BSL then
        (case cs of
           [] \<Rightarrow> None
         | d # ds \<Rightarrow> if d = LF then sh_word Unquoted ds
                     else map_option ((#) d) (sh_word Unquoted ds))
      else if sh_special c then None
      else map_option ((#) c) (sh_word Unquoted cs))"

text \<open>The value of a text read as exactly one word; the empty text is no word.\<close>

definition sh_token :: "jsstring \<Rightarrow> jsstring option" where
  "sh_token s = (if s = [] then None else sh_word Unquoted s)"

subsection \<open>An AppleScript string literal\<close>

text \<open>
  Between the double quotes of an AppleScript string literal a backslash introduces an
  escape: backslash, double quote, \<open>n\<close>, \<open>r\<close> and \<open>t\<close> are the known ones, any
  other is a syntax error. An unescaped double quote ends the literal, and every other
  character, a line break included, stands for itself.
\<close>

definition as_escape :: "jschar \<Rightarrow> jschar option" where
  "as_escape d =
     (if d = BSL then Some BSL
      else if d = DQ then Some DQ
      else if d = 0x6E then Some LF
      else if d = 0x72 then Some CR
      else if d = 0x74 then Some TAB
      else None)"

fun as_chars :: "jsstring \<Rightarrow> jsstring option" where
  "as_chars [] = None"
| "as_chars (c # cs) =
     (if c = DQ then (if cs = [] then Some [] else None)
      else if c = BSL then
        (case cs of
           [] \<Rightarrow> None
         | d # ds \<Rightarrow>
             (case as_escape d of
                None \<Rightarrow> None
              | Some e \<Rightarrow> map_option ((#) e) (as_chars ds)))
      else map_option ((#) c) (as_chars cs))"

text \<open>The value of a text that is exactly one string literal.\<close>

definition as_literal :: "jsstring \<Rightarrow> jsstring option" where
  "as_literal s = (case s of [] \<Rightarrow> None | c # cs \<Rightarrow> if c = DQ then as_chars cs else None)"

subsection \<open>The substitutions in the words of the specification\<close>

text \<open>
  "Every \<open>c\<close> becomes \<open>r\<close>": each code unit is mapped on its own, and the pieces are
  joined in order.
\<close>

definition subst_every :: "jschar \<Rightarrow> jsstring \<Rightarrow> jsstring \<Rightarrow> jsstring" where
  "subst_every c r s = concat (map (\<lambda>x. if x = c then r else [x]) s)"


subsection \<open>The window and its entries in the words of the specification\<close>

text \<open>
  The trailing window of a file's content: its last \<open>min 4096 size\<close> bytes. The lines
  of a window: the window decoded as UTF-8 and split at the line feeds.
\<close>

definition tail_window :: "byte list \<Rightarrow> byte list" where
  "tail_window content = drop (length content - min 4096 (length content)) content"

definition window_lines :: "byte list \<Rightarrow> jsstring list" where
  "window_lines bytes = split_on LF (utf8_decode 0 0 0x80 0xBF bytes)"

text \<open>
  The entry of a line: the line, with the white space around it removed, parses as a
  JSON object (so neither \<open>null\<close> nor an array nor a primitive value) whose \<open>type\<close>
  field is a string; that string is the type of the entry. Every other line has none.
\<close>

definition entry_type :: "jsstring \<Rightarrow> jsstring option" where
  "entry_type line =
     (case JSON_parse (trim line) of
        Some (JObject ms) \<Rightarrow>
          (case map_of (rev ms) (js ''type'') of
             Some (JString t) \<Rightarrow> Some t
           | _ \<Rightarrow> None)
      | _ \<Rightarrow> None)"

text \<open>
  A text of JSON white space only: space, tab, line feed, carriage return. Such text
  around a value is ignored by \<open>JSON.parse\<close> itself.
\<close>

definition json_blank :: "jsstring \<Rightarrow> bool" where
  "json_blank ws \<longleftrightarrow> (\<forall>c\<in>set ws. is_json_ws c)"

text \<open>The result of lexing one token, with more text after the rest.\<close>

abbreviation keep :: "jsstring \<Rightarrow> (jsstring \<times> jsstring) option \<Rightarrow> (jsstring \<times> jsstring) option" where
  "keep ws \<equiv> map_option (\<lambda>(v, r). (v, r @ ws))"

text \<open>The type of the last line with an entry, looking from the last line to the first.\<close>

definition last_entry :: "jsstring list \<Rightarrow> jsstring option" where
  "last_entry ls =
     (case find (\<lambda>l. entry_type l \<noteq> None) (rev ls) of
        None \<Rightarrow> None
      | Some l \<Rightarrow> entry_type l)"

text \<open>
  The reads in a log, each as the length asked for, the position and what was delivered;
  the bytes asked for and the bytes delivered by all reads of a log.
\<close>

fun read_of :: "io_call \<Rightarrow> (nat \<times> nat \<times> (io_error + byte list)) option" where
  "read_of (Read fh len position out) = Some (len, position, out)"
| "read_of _ = None"

definition reads :: "io_call list \<Rightarrow> (nat \<times> nat \<times> (io_error + byte list)) list" where
  "reads calls = List.map_filter read_of calls"

fun delivered :: "io_error + byte list \<Rightarrow> nat" where
  "delivered (Inl e) = 0"
| "delivered (Inr got) = length got"

definition bytes_requested :: "io_call list \<Rightarrow> nat" where
  "bytes_requested calls = sum_list (map fst (reads calls))"

definition bytes_delivered :: "io_call list \<Rightarrow> nat" where
  "bytes_delivered calls = sum_list (map (\<lambda>(len, position, out). delivered out) (reads calls))"

subsection \<open>Files and file systems of the examples\<close>

definition ascii :: "string \<Rightarrow> byte list" where
  "ascii s = map of_char s"

text \<open>Two complete records, and a complete record followed by one torn in the middle of a write.\<close>

definition two_records :: "byte list" where
  \<open>two_records = ascii ''{"type":"a"}\<newline>{"type":"b"}\<newline>''\<close>

definition torn_record :: "byte list" where
  \<open>torn_record = ascii ''{"type":"a"}\<newline>{"type":"b"''\<close>

text \<open>
  A path that opens and has a status with a size other than 0, but cannot be read: so a
  directory answers on Linux.
\<close>

definition unreadable_directory :: file_system where
  "unreadable_directory =
     \<lparr> sys_open = (\<lambda>p. Inr 3),
       sys_fstat = (\<lambda>fh. Inr \<lparr>st_size = 4096, st_mtime = 0\<rparr>),
       sys_read = (\<lambda>fh len position. Inl EISDIR),
       sys_close = (\<lambda>fh. Inr ()) \<rparr>"

text \<open>A file with one record whose handle fails to close.\<close>

definition failing_close :: file_system where
  "failing_close = (regular_file (js ''log'') two_records 0) \<lparr> sys_close := (\<lambda>fh. Inl EIO) \<rparr>"

text \<open>
  A file of 4106 bytes and a single line: ten letters, the text of a record, and blanks
  up to the end. The window of 4096 bytes begins right after the ten letters.
\<close>

definition straddling_line :: "byte list" where
  \<open>straddling_line = replicate 10 0x41 @ ascii ''{"type":"frag"}'' @ replicate 4081 0x20\<close>


text \<open>
  A file whose status reports 4096 bytes but which holds six: so an attribute file of
  sysfs answers.
\<close>

definition short_attribute :: file_system where
  "short_attribute =
     \<lparr> sys_open = (\<lambda>p. Inr 3),
       sys_fstat = (\<lambda>fh. Inr \<lparr>st_size = 4096, st_mtime = 0\<rparr>),
       sys_read = (\<lambda>fh len position. Inr (take len (drop position (ascii ''hello\<newline>'')))),
       sys_close = (\<lambda>fh. Inr ()) \<rparr>"

text \<open>
  Two records of which the second begins with a vertical tab, and a single record that
  begins with a vertical tab.
\<close>

definition vt_second :: "byte list" where
  \<open>vt_second = ascii ''{"type":"a"}\<newline>'' @ [0x0B] @ ascii ''{"type":"b"}\<newline>''\<close>

definition vt_record :: "byte list" where
  \<open>vt_record = [0x0B] @ ascii ''{"type":"b"}\<newline>''\<close>

text \<open>A record, followed by the line of 4106 bytes that the window cuts.\<close>

definition entry_before_fragment :: "byte list" where
  \<open>entry_before_fragment = ascii ''{"type":"a"}\<newline>'' @ straddling_line\<close>


section \<open>Properties of the escaping functions\<close>

lemma replace_all_subst_every: "replace_all c r s = subst_every c r s"
  by (induction s) (simp_all add: subst_every_def)

lemma replace_all_append:
  "replace_all c r (xs @ ys) = replace_all c r xs @ replace_all c r ys"
  by (induction xs) simp_all

lemma sh_word_quoted_body:
  "sh_word InSingle (replace_all SQ [SQ, BSL, SQ, SQ] s @ [SQ]) = Some s"
  by (induction s) simp_all

text \<open>
  C9: \<open>shellEscape s\<close> is a single quote, then \<open>s\<close> with every single quote replaced by
  the four code units quote, backslash, quote, quote, then a single quote; the empty
  string gives the two quotes; the function has a value for every input.
\<close>

theorem shellEscape_shape:
  "shellEscape s = [SQ] @ subst_every SQ [SQ, BSL, SQ, SQ] s @ [SQ]
   \<and> shellEscape [] = [SQ, SQ]
   \<and> (\<exists>!out. shellEscape s = out)"
proof (intro conjI)
  show "shellEscape s = [SQ] @ subst_every SQ [SQ, BSL, SQ, SQ] s @ [SQ]"
    by (simp add: shellEscape_def replace_all_subst_every)
  show "shellEscape [] = [SQ, SQ]"
    by (simp add: shellEscape_def)
  show "\<exists>!out. shellEscape s = out"
    by simp
qed

text \<open>
  C1: read by the shell as one word under the single-quote rules, \<open>shellEscape s\<close> has
  the value \<open>s\<close>, for every string \<open>s\<close>.
\<close>

theorem shellEscape_roundtrip: "sh_token (shellEscape s) = Some s"
  by (simp add: sh_token_def shellEscape_def sh_word_quoted_body)


lemma escapeAppleScript_Cons:
  "escapeAppleScript (c # cs) =
     (if c = BSL then [BSL, BSL] else if c = DQ then [BSL, DQ] else [c]) @ escapeAppleScript cs"
  by (simp add: escapeAppleScript_def)

lemma escapeAppleScript_Nil: "escapeAppleScript [] = []"
  by (simp add: escapeAppleScript_def)

lemma escapeAppleScript_pieces:
  "escapeAppleScript s = concat (map (\<lambda>c. if c = BSL \<or> c = DQ then [BSL, c] else [c]) s)"
  by (induction s) (simp_all add: escapeAppleScript_Cons escapeAppleScript_Nil)

lemma as_chars_escaped: "as_chars (escapeAppleScript s @ [DQ]) = Some s"
  by (induction s) (simp_all add: escapeAppleScript_Cons escapeAppleScript_Nil as_escape_def)

text \<open>
  C2: \<open>escapeAppleScript s\<close> is the result of replacing every backslash by two
  backslashes and then every double quote by backslash and double quote, and that text
  between a pair of double quotes, read as an AppleScript string literal, has the
  value \<open>s\<close>, for every string \<open>s\<close>.
\<close>

theorem escapeAppleScript_roundtrip:
  "escapeAppleScript s = subst_every DQ [BSL, DQ] (subst_every BSL [BSL, BSL] s)
   \<and> as_literal ([DQ] @ escapeAppleScript s @ [DQ]) = Some s"
  by (simp add: as_literal_def as_chars_escaped)
     (simp add: escapeAppleScript_def replace_all_subst_every)

text \<open>
  C10: a string with neither a backslash nor a double quote is returned as it is; in
  general every code unit other than these two is passed through unchanged and in
  order: the output is the input with a backslash put before each backslash and each
  double quote, so that striking the two special characters from input and output
  leaves the same text.
\<close>

theorem escapeAppleScript_passthrough:
  "(BSL \<notin> set s \<and> DQ \<notin> set s \<longrightarrow> escapeAppleScript s = s)
   \<and> filter (\<lambda>c. c \<noteq> BSL \<and> c \<noteq> DQ) (escapeAppleScript s) = filter (\<lambda>c. c \<noteq> BSL \<and> c \<noteq> DQ) s
   \<and> escapeAppleScript s = concat (map (\<lambda>c. if c = BSL \<or> c = DQ then [BSL, c] else [c]) s)"
proof (intro conjI)
  show "BSL \<notin> set s \<and> DQ \<notin> set s \<longrightarrow> escapeAppleScript s = s"
    by (induction s) (simp_all add: escapeAppleScript_Cons escapeAppleScript_Nil)
  show "filter (\<lambda>c. c \<noteq> BSL \<and> c \<noteq> DQ) (escapeAppleScript s) = filter (\<lambda>c. c \<noteq> BSL \<and> c \<noteq> DQ) s"
    by (induction s) (simp_all add: escapeAppleScript_Cons escapeAppleScript_Nil)
  show "escapeAppleScript s = concat (map (\<lambda>c. if c = BSL \<or> c = DQ then [BSL, c] else [c]) s)"
    by (rule escapeAppleScript_pieces)
qed

theorem escapeAppleScript_passthrough_witness:
  "BSL \<notin> set [0x61, LF, 0x01, SQ] \<and> DQ \<notin> set [0x61, LF, 0x01, SQ :: jschar]
   \<and> escapeAppleScript [0x61, LF, 0x01, SQ] = [0x61, LF, 0x01, SQ]"
  using escapeAppleScript_passthrough [of "[0x61, LF, 0x01, SQ]"] by simp


section \<open>Properties of the URL guard\<close>

lemma startsWith_prefix: "startsWith s p \<longleftrightarrow> prefix p s"
  unfolding startsWith_def
  by (metis append_take_drop_id prefix_def append_eq_conv_conj)

text \<open>
  C8: \<open>validateUrl url label\<close> throws exactly when \<open>url\<close> begins with neither
  \<open>http://\<close> nor \<open>https://\<close>; the message of the error then contains \<open>label\<close> and
  \<open>url\<close> as they are; with one of the prefixes the call returns, with no value.
\<close>

theorem validateUrl_guard:
  "((\<exists>e. validateUrl url label = Inl e)
      \<longleftrightarrow> \<not> prefix (js ''http://'') url \<and> \<not> prefix (js ''https://'') url)
   \<and> (\<forall>m. validateUrl url label = Inl (JsError m) \<longrightarrow> sublist label m \<and> sublist url m)
   \<and> (prefix (js ''http://'') url \<or> prefix (js ''https://'') url
        \<longrightarrow> validateUrl url label = Inr ())"
proof (intro conjI allI impI)
  show "(\<exists>e. validateUrl url label = Inl e)
      \<longleftrightarrow> \<not> prefix (js ''http://'') url \<and> \<not> prefix (js ''https://'') url"
    by (auto simp: validateUrl_def startsWith_prefix)
next
  fix m assume m: "validateUrl url label = Inl (JsError m)"
  then have eq: "m = js ''['' @ label @ js ''] Invalid url: must be http(s), got ''
                          @ [DQ] @ url @ [DQ]"
    by (simp add: validateUrl_def split: if_splits)
  have "m = js ''['' @ label @ (js ''] Invalid url: must be http(s), got '' @ [DQ] @ url @ [DQ])"
    using eq by simp
  then show "sublist label m"
    unfolding sublist_def by blast
  have "m = (js ''['' @ label @ js ''] Invalid url: must be http(s), got '' @ [DQ]) @ url @ [DQ]"
    using eq by simp
  then show "sublist url m"
    unfolding sublist_def by blast
next
  assume "prefix (js ''http://'') url \<or> prefix (js ''https://'') url"
  then show "validateUrl url label = Inr ()"
    by (auto simp: validateUrl_def startsWith_prefix)
qed

theorem validateUrl_guard_witness:
  "validateUrl (js ''ftp://x'') (js ''P'')
     = Inl (JsError (js ''[P] Invalid url: must be http(s), got '' @ [DQ] @ js ''ftp://x'' @ [DQ]))
   \<and> sublist (js ''P'') (js ''[P] Invalid url: must be http(s), got '' @ [DQ] @ js ''ftp://x'' @ [DQ])
   \<and> sublist (js ''ftp://x'') (js ''[P] Invalid url: must be http(s), got '' @ [DQ] @ js ''ftp://x'' @ [DQ])
   \<and> prefix (js ''https://'') (js ''https://example.com'')
   \<and> validateUrl (js ''https://example.com'') (js ''P'') = Inr ()"
proof -
  have thrown: "validateUrl (js ''ftp://x'') (js ''P'')
     = Inl (JsError (js ''[P] Invalid url: must be http(s), got '' @ [DQ] @ js ''ftp://x'' @ [DQ]))"
    by (simp add: validateUrl_def startsWith_def js_def)
  have pre: "prefix (js ''https://'') (js ''https://example.com'')"
    by (simp add: js_def)
  from validateUrl_guard [of "js ''ftp://x''" "js ''P''"] thrown
  have "sublist (js ''P'') (js ''[P] Invalid url: must be http(s), got '' @ [DQ] @ js ''ftp://x'' @ [DQ])
    \<and> sublist (js ''ftp://x'') (js ''[P] Invalid url: must be http(s), got '' @ [DQ] @ js ''ftp://x'' @ [DQ])"
    by blast
  moreover from validateUrl_guard [of "js ''https://example.com''" "js ''P''"] pre
  have "validateUrl (js ''https://example.com'') (js ''P'') = Inr ()"
    by blast
  ultimately show ?thesis using thrown pre by blast
qed


section \<open>Properties of the tail reader\<close>

lemma JSON_parse_Nil: "JSON_parse [] = None"
  by (simp add: JSON_parse_def)

lemma trim_Nil: "trim [] = []"
  by (simp add: trim_def)

lemma plain_object_iff:
  "typeof_json parsed = ''object'' \<and> parsed \<noteq> JNull \<and> \<not> Array_isArray parsed \<longleftrightarrow> (\<exists>ms. parsed = JObject ms)"
  by (cases parsed) simp_all

lemma scan_lines_step:
  "scan_lines ls (Suc i) = (case entry_type (ls ! i) of Some t \<Rightarrow> Some t | None \<Rightarrow> scan_lines ls i)"
proof (cases "trim (ls ! i) = []")
  case True
  then show ?thesis
    by (simp add: entry_type_def JSON_parse_Nil Let_def)
next
  case False
  then have ne: "ls ! i \<noteq> []" by (auto simp: trim_Nil)
  show ?thesis
  proof (cases "JSON_parse (trim (ls ! i))")
    case None
    then show ?thesis using False ne by (simp add: entry_type_def Let_def)
  next
    case (Some parsed)
    then show ?thesis using False ne
      by (cases parsed) (auto simp: entry_type_def Let_def split: option.splits json.splits)
  qed
qed

lemma last_entry_snoc:
  "last_entry (xs @ [l]) = (case entry_type l of Some t \<Rightarrow> Some t | None \<Rightarrow> last_entry xs)"
  by (auto simp: last_entry_def split: option.splits)

lemma last_entry_Nil: "last_entry [] = None"
  by (simp add: last_entry_def)

lemma scan_lines_take: "n \<le> length ls \<Longrightarrow> scan_lines ls n = last_entry (take n ls)"
proof (induction n)
  case 0
  then show ?case by (simp add: last_entry_Nil)
next
  case (Suc n)
  then have "take (Suc n) ls = take n ls @ [ls ! n]"
    by (simp add: take_Suc_conv_app_nth)
  with Suc show ?case
    by (simp add: scan_lines_step last_entry_snoc del: scan_lines.simps split: option.splits)
qed

lemma scan_lines_all: "scan_lines ls (length ls) = last_entry ls"
  by (simp add: scan_lines_take)


lemma take_min_length: "take (min (length xs) n) xs = take n xs"
  by (simp add: min_def)

lemma try_block_fstat_fails:
  "sys_fstat fs fh = Inl e \<Longrightarrow> try_block fs fh calls = (Inl e, calls @ [Fstat fh])"
  by (simp add: try_block_def fh_stat_def)

lemma try_block_empty:
  "sys_fstat fs fh = Inr st \<Longrightarrow> st_size st = 0
   \<Longrightarrow> try_block fs fh calls = (Inr None, calls @ [Fstat fh])"
  by (simp add: try_block_def fh_stat_def)

lemma try_block_read_fails:
  "sys_fstat fs fh = Inr st \<Longrightarrow> 0 < st_size st
   \<Longrightarrow> sys_read fs fh (min 4096 (st_size st)) (st_size st - min 4096 (st_size st)) = Inl e
   \<Longrightarrow> try_block fs fh calls
        = (Inl e, calls @ [Fstat fh,
             Read fh (min 4096 (st_size st)) (st_size st - min 4096 (st_size st)) (Inl e)])"
  by (simp add: try_block_def fh_stat_def Let_def fh_read_def TAIL_READ_BYTES_def)

lemma try_block_read:
  "sys_fstat fs fh = Inr st \<Longrightarrow> 0 < st_size st
   \<Longrightarrow> sys_read fs fh (min 4096 (st_size st)) (st_size st - min 4096 (st_size st)) = Inr data
   \<Longrightarrow> try_block fs fh calls
        = (Inr (Some \<lparr>lastType = last_entry (window_lines (take (min 4096 (st_size st)) data)),
                        modifiedAt = st_mtime st\<rparr>),
           calls @ [Fstat fh,
             Read fh (min 4096 (st_size st)) (st_size st - min 4096 (st_size st))
               (Inr (take (min 4096 (st_size st)) data))])"
  unfolding try_block_def fh_stat_def fh_read_def TAIL_READ_BYTES_def Let_def
  by (simp add: scan_lines_all window_lines_def Buffer_toString_utf8_def take_min_length
           split: option.splits del: scan_lines.simps)

lemma readLast_open_fails:
  "sys_open fs p = Inl e \<Longrightarrow> readLastJsonlEntry fs p = (Returned None, [Open p])"
  by (simp add: readLastJsonlEntry_def fs_open_def)

lemma readLast_opened:
  "sys_open fs p = Inr fh \<Longrightarrow>
   readLastJsonlEntry fs p =
     ((case sys_close fs fh of
         Inl e \<Rightarrow> Rejected e
       | Inr u \<Rightarrow> Returned (case fst (try_block fs fh [Open p]) of Inl e \<Rightarrow> None | Inr v \<Rightarrow> v)),
      snd (try_block fs fh [Open p]) @ [Close fh])"
  by (simp add: readLastJsonlEntry_def fs_open_def fh_close_def Let_def
           split: prod.splits sum.splits)

lemma readLast_read:
  assumes "sys_open fs p = Inr fh" and "sys_fstat fs fh = Inr st" and "0 < st_size st"
    and "sys_read fs fh (min 4096 (st_size st)) (st_size st - min 4096 (st_size st)) = Inr data"
    and "sys_close fs fh = Inr u"
  shows "readLastJsonlEntry fs p =
     (Returned (Some \<lparr>lastType = last_entry (window_lines (take (min 4096 (st_size st)) data)),
                        modifiedAt = st_mtime st\<rparr>),
      [Open p, Fstat fh,
       Read fh (min 4096 (st_size st)) (st_size st - min 4096 (st_size st))
         (Inr (take (min 4096 (st_size st)) data)),
       Close fh])"
  by (simp add: readLast_opened[OF assms(1)] try_block_read[OF assms(2,3,4)] assms(5))

lemma readLast_regular_file:
  assumes "content \<noteq> []"
  shows "readLastJsonlEntry (regular_file p content m) p =
     (Returned (Some \<lparr>lastType = last_entry (window_lines (tail_window content)), modifiedAt = m\<rparr>),
      [Open p, Fstat 3,
       Read 3 (min 4096 (length content)) (length content - min 4096 (length content))
         (Inr (tail_window content)),
       Close 3])"
proof -
  let ?fs = "regular_file p content m"
  let ?r = "min 4096 (length content)"
  have o: "sys_open ?fs p = Inr 3" by (simp add: regular_file_def)
  have s: "sys_fstat ?fs 3 = Inr \<lparr>st_size = length content, st_mtime = m\<rparr>"
    by (simp add: regular_file_def)
  have r: "sys_read ?fs 3 ?r (length content - ?r) = Inr (tail_window content)"
    by (simp add: regular_file_def tail_window_def)
  have c: "sys_close ?fs 3 = Inr ()" by (simp add: regular_file_def)
  have t: "take ?r (tail_window content) = tail_window content"
    by (simp add: tail_window_def)
  from readLast_read[OF o s _ _ c, of "tail_window content"] r assms t
  show ?thesis by simp
qed

lemma last_entry_append:
  "last_entry (xs @ ys) = (case last_entry ys of Some t \<Rightarrow> Some t | None \<Rightarrow> last_entry xs)"
proof (induction ys rule: rev_induct)
  case Nil
  then show ?case by (simp add: last_entry_Nil)
next
  case (snoc y ys)
  have "last_entry (xs @ ys @ [y]) = last_entry ((xs @ ys) @ [y])" by simp
  also have "\<dots> = (case entry_type y of Some t \<Rightarrow> Some t | None \<Rightarrow> last_entry (xs @ ys))"
    by (rule last_entry_snoc)
  finally show ?case using snoc
    by (simp add: last_entry_snoc split: option.splits)
qed

lemma last_entry_skip:
  "entry_type l = None \<Longrightarrow> last_entry (xs @ l # ys) = last_entry (xs @ ys)"
  using last_entry_append[of xs "l # ys"] last_entry_append[of "[l]" ys]
        last_entry_append[of xs ys] last_entry_snoc[of "[]" l]
  by (simp add: last_entry_Nil split: option.splits)

lemma last_entry_none: "(\<forall>l\<in>set ls. entry_type l = None) \<Longrightarrow> last_entry ls = None"
  by (induction ls rule: rev_induct) (simp_all add: last_entry_Nil last_entry_snoc)

lemma last_entry_last:
  "\<exists>l\<in>set ls. entry_type l \<noteq> None \<Longrightarrow>
   last_entry ls = entry_type (last (filter (\<lambda>l. entry_type l \<noteq> None) ls))
   \<and> last_entry ls \<noteq> None"
proof (induction ls rule: rev_induct)
  case Nil
  then show ?case by simp
next
  case (snoc x xs)
  show ?case
  proof (cases "entry_type x")
    case None
    with snoc.prems have ex: "\<exists>l\<in>set xs. entry_type l \<noteq> None" by auto
    have f: "filter (\<lambda>l. entry_type l \<noteq> None) (xs @ [x]) = filter (\<lambda>l. entry_type l \<noteq> None) xs"
      using None by simp
    have c: "last_entry (xs @ [x]) = last_entry xs"
      using None by (simp add: last_entry_snoc)
    show ?thesis
      unfolding c f using snoc.IH[OF ex] by blast
  next
    case (Some t)
    then show ?thesis by (simp add: last_entry_snoc)
  qed
qed

lemma split_on_not_Nil: "split_on sep s \<noteq> []"
  by (induction s) (simp_all split: list.splits)

lemma split_on_no_sep: "sep \<notin> set s \<Longrightarrow> split_on sep s = [s]"
  by (induction s) auto

lemma utf8_decode_ascii:
  "\<forall>b\<in>set bs. b \<le> 0x7F \<Longrightarrow> utf8_decode 0 0 0x80 0xBF bs = map ucast bs"
proof (induction bs)
  case Nil
  then show ?case by simp
next
  case (Cons b bs)
  then have "b \<le> 0x7F" by simp
  then have "unat b \<le> 0x7F" by (simp add: word_le_nat_alt)
  with Cons show ?case by (simp add: Let_def)
qed

lemma trim_blank: "trim (replicate n SP) = []"
  by (simp add: trim_def is_white_space_def)

lemma trim_trailing_blanks:
  assumes "xs \<noteq> []" and "\<not> is_white_space (hd xs)" and "\<not> is_white_space (last xs)"
  shows "trim (xs @ replicate n SP) = xs"
proof -
  have sp: "is_white_space SP" by (simp add: is_white_space_def)
  have 1: "dropWhile is_white_space (xs @ replicate n SP) = xs @ replicate n SP"
    using assms(1,2) by (cases xs) simp_all
  have 2: "dropWhile is_white_space (rev xs) = rev xs"
    using assms(1,3) by (cases xs rule: rev_cases) simp_all
  have 3: "dropWhile is_white_space (replicate n SP @ rev xs) = dropWhile is_white_space (rev xs)"
    using sp by (induction n) simp_all
  show ?thesis
    by (simp add: trim_def 1 3 2)
qed

lemma two_records_scan: "last_entry (window_lines (tail_window two_records)) = Some (js ''b'')"
  by code_simp

lemma torn_record_scan: "last_entry (window_lines (tail_window torn_record)) = Some (js ''a'')"
  by code_simp

lemma fragment_entry: \<open>entry_type (js ''{"type":"frag"}'') = Some (js ''frag'')\<close>
  by code_simp

lemma whole_line_no_entry: \<open>entry_type (replicate 10 0x41 @ js ''{"type":"frag"}'') = None\<close>
  by code_simp

lemma tail_window_append: "length window = 4096 \<Longrightarrow> tail_window (older @ window) = window"
  by (simp add: tail_window_def)

lemma window_lines_not_Nil: "window_lines bytes \<noteq> []"
  by (simp add: window_lines_def split_on_not_Nil)

lemma entry_type_trailing_blanks:
  assumes "xs \<noteq> []" and "\<not> is_white_space (hd xs)" and "\<not> is_white_space (last xs)"
  shows "entry_type (xs @ replicate n SP) = entry_type xs"
  using trim_trailing_blanks[OF assms, of n] trim_trailing_blanks[OF assms, of 0]
  by (simp add: entry_type_def)

lemma entry_type_blank: "entry_type (replicate n SP) = None"
  by (simp add: entry_type_def trim_blank JSON_parse_Nil)

lemma blank_window_lines: "window_lines (replicate n 0x20) = [replicate n SP]"
proof -
  have "utf8_decode 0 0 0x80 0xBF (replicate n 0x20) = map ucast (replicate n (0x20 :: byte))"
    by (rule utf8_decode_ascii) simp
  then show ?thesis
    by (simp add: window_lines_def split_on_no_sep)
qed

lemma straddling_window:
  \<open>tail_window straddling_line = ascii ''{"type":"frag"}'' @ replicate 4081 0x20\<close>
  by (simp add: straddling_line_def tail_window_def ascii_def)

lemma fragment_window_lines:
  \<open>window_lines (ascii ''{"type":"frag"}'' @ replicate 4081 0x20)
     = [js ''{"type":"frag"}'' @ replicate 4081 SP]\<close>
proof -
  have \<open>utf8_decode 0 0 0x80 0xBF (ascii ''{"type":"frag"}'' @ replicate 4081 0x20)
          = map ucast (ascii ''{"type":"frag"}'' @ replicate 4081 (0x20 :: byte))\<close>
    by (rule utf8_decode_ascii) (auto simp: ascii_def)
  then show ?thesis
    by (simp add: window_lines_def split_on_no_sep ascii_def js_def)
qed

lemma straddling_whole_line:
  \<open>window_lines straddling_line
     = [replicate 10 0x41 @ js ''{"type":"frag"}'' @ replicate 4081 SP]\<close>
proof -
  have \<open>utf8_decode 0 0 0x80 0xBF straddling_line = map ucast straddling_line\<close>
    by (rule utf8_decode_ascii) (auto simp: ascii_def straddling_line_def)
  then show ?thesis
    by (simp add: window_lines_def split_on_no_sep ascii_def js_def straddling_line_def)
qed

lemma fragment_line_entry:
  \<open>entry_type (js ''{"type":"frag"}'' @ replicate 4081 SP) = Some (js ''frag'')\<close>
proof -
  have \<open>entry_type (js ''{"type":"frag"}'' @ replicate 4081 SP) = entry_type (js ''{"type":"frag"}'')\<close>
    by (rule entry_type_trailing_blanks) (simp_all add: js_def is_white_space_def)
  then show ?thesis by (simp only: fragment_entry)
qed

lemma whole_line_entry:
  \<open>entry_type (replicate 10 0x41 @ js ''{"type":"frag"}'' @ replicate 4081 SP) = None\<close>
proof -
  have \<open>entry_type ((replicate 10 0x41 @ js ''{"type":"frag"}'') @ replicate 4081 SP)
         = entry_type (replicate 10 0x41 @ js ''{"type":"frag"}'')\<close>
    by (rule entry_type_trailing_blanks) (simp_all add: js_def is_white_space_def)
  then show ?thesis by (simp only: whole_line_no_entry append_assoc)
qed

subsection \<open>White space around a JSON text\<close>

lemma json_blank_simps [simp]:
  "json_blank []" "json_blank (c # cs) \<longleftrightarrow> is_json_ws c \<and> json_blank cs"
  by (auto simp: json_blank_def)

lemma json_ws_facts:
  assumes "is_json_ws c"
  shows "\<not> is_digit c" "c \<noteq> DQ" "c \<noteq> BSL" "c \<noteq> 0x2E" "c \<noteq> 0x65" "c \<noteq> 0x45"
    "c \<noteq> 0x2B" "c \<noteq> 0x2D" "c \<noteq> 0x75" "hex_value c = None" "simple_escape c = None"
    "c \<noteq> 0x30" "c \<noteq> 0x7B" "c \<noteq> 0x7D" "c \<noteq> 0x5B" "c \<noteq> 0x5D" "c \<noteq> 0x3A" "c \<noteq> 0x2C"
  using assms
  by (auto simp: is_json_ws_def is_digit_def hex_value_def simple_escape_def)

lemma lex_blank: "json_blank ws \<Longrightarrow> lex ws = Some []"
  by (induction ws) simp_all

lemma lex_leading_blank: "json_blank ws \<Longrightarrow> lex (ws @ s) = lex s"
  by (induction ws) simp_all

lemma takeWhile_digit_blank: "json_blank ws \<Longrightarrow> takeWhile is_digit ws = []"
  by (cases ws) (simp_all add: json_ws_facts)

lemma dropWhile_digit_blank: "json_blank ws \<Longrightarrow> dropWhile is_digit ws = ws"
  by (cases ws) (simp_all add: json_ws_facts)

lemma takeWhile_digit_append:
  "json_blank ws \<Longrightarrow> takeWhile is_digit (s @ ws) = takeWhile is_digit s"
  by (induction s) (simp_all add: takeWhile_digit_blank)

lemma dropWhile_digit_append:
  "json_blank ws \<Longrightarrow> dropWhile is_digit (s @ ws) = dropWhile is_digit s @ ws"
  by (induction s) (simp_all add: dropWhile_digit_blank)

lemma lex_digits_append: "json_blank ws \<Longrightarrow> lex_digits (s @ ws) = keep ws (lex_digits s)"
  by (simp add: lex_digits_def takeWhile_digit_append dropWhile_digit_append)

lemma lex_int_append: "json_blank ws \<Longrightarrow> lex_int (s @ ws) = keep ws (lex_int s)"
  by (cases s; cases ws)
     (simp_all add: lex_int_def takeWhile_digit_append dropWhile_digit_append json_ws_facts)

lemma lex_frac_append: "json_blank ws \<Longrightarrow> lex_frac (s @ ws) = keep ws (lex_frac s)"
proof (cases s)
  case Nil
  assume "json_blank ws"
  with Nil show ?thesis by (cases ws) (simp_all add: lex_frac_def json_ws_facts)
next
  case (Cons c cs)
  assume "json_blank ws"
  with Cons show ?thesis
    by (cases "lex_digits cs") (auto simp: lex_frac_def lex_digits_append)
qed

lemma lex_digits_blank: "json_blank ws \<Longrightarrow> lex_digits ws = None"
  by (simp add: lex_digits_def takeWhile_digit_blank)

lemma lex_exp_append: "json_blank ws \<Longrightarrow> lex_exp (s @ ws) = keep ws (lex_exp s)"
proof (cases s)
  case Nil
  assume "json_blank ws"
  with Nil show ?thesis by (cases ws) (simp_all add: lex_exp_def json_ws_facts)
next
  case (Cons c cs)
  assume b: "json_blank ws"
  show ?thesis
  proof (cases cs)
    case Nil
    with Cons b show ?thesis
      by (cases ws) (simp_all add: lex_exp_def json_ws_facts lex_digits_blank)
  next
    case inner: (Cons d ds)
    from b have 1: "lex_digits (ds @ ws) = keep ws (lex_digits ds)"
      and 2: "lex_digits (d # ds @ ws) = keep ws (lex_digits (d # ds))"
      using lex_digits_append[of ws "d # ds"] by (simp_all add: lex_digits_append)
    show ?thesis
      unfolding Cons inner
      by (cases "lex_digits ds"; cases "lex_digits (d # ds)")
         (auto simp: lex_exp_def 1 2)
  qed
qed

lemma lex_sign_append:
  "json_blank ws \<Longrightarrow> lex_sign (s @ ws) = (fst (lex_sign s), snd (lex_sign s) @ ws)"
  by (cases s; cases ws) (simp_all add: lex_sign_def json_ws_facts)

lemma lex_number_append: "json_blank ws \<Longrightarrow> lex_number (s @ ws) = keep ws (lex_number s)"
  by (cases "lex_sign s")
     (auto simp: lex_number_def lex_sign_append lex_int_append lex_frac_append lex_exp_append
           split: option.splits prod.splits)


lemma lex_string_blank: "json_blank ws \<Longrightarrow> lex_string ws = None"
proof (induction ws)
  case Nil
  then show ?case by simp
next
  case (Cons c cs)
  then have "c = SP \<or> c < 0x20" by (auto simp: is_json_ws_def)
  with Cons show ?case by (auto simp: json_ws_facts)
qed

lemma lex_string_append: "json_blank ws \<Longrightarrow> lex_string (cs @ ws) = keep ws (lex_string cs)"
proof (induction cs rule: lex_string.induct)
  case 1
  then show ?case by (simp add: lex_string_blank)
next
  case (2 c cs)
  note b = \<open>json_blank ws\<close>
  show ?case
  proof (cases "c = DQ \<or> c < 0x20")
    case True
    then show ?thesis by auto
  next
    case plain: False
    show ?thesis
    proof (cases "c = BSL")
      case False
      with plain 2 show ?thesis
        by (cases "lex_string cs") auto
    next
      case True
      show ?thesis
      proof (cases cs)
        case Nil
        with True plain b show ?thesis
          by (cases ws) (simp_all add: json_ws_facts)
      next
        case (Cons e es)
        show ?thesis
        proof (cases "e = 0x75")
          case False
          with True plain Cons 2 show ?thesis
            by (cases "simple_escape e"; cases "lex_string es") auto
        next
          case u: True
          show ?thesis
          proof (cases es)
            case Nil
            with True plain Cons u b show ?thesis
              by (auto simp: json_ws_facts split: list.splits)
          next
            case e1: (Cons h1 r1)
            show ?thesis
            proof (cases r1)
              case Nil
              with True plain Cons u b e1 show ?thesis
                by (auto simp: json_ws_facts split: list.splits option.splits)
            next
              case e2: (Cons h2 r2)
              show ?thesis
              proof (cases r2)
                case Nil
                with True plain Cons u b e1 e2 show ?thesis
                  by (auto simp: json_ws_facts split: list.splits option.splits)
              next
                case e3: (Cons h3 r3)
                show ?thesis
                proof (cases r3)
                  case Nil
                  with True plain Cons u b e1 e2 e3 show ?thesis
                    by (auto simp: json_ws_facts split: list.splits option.splits)
                next
                  case e4: (Cons h4 r)
                  with True plain Cons u b e1 e2 e3 2 show ?thesis
                    by (cases "lex_string r") (auto split: option.splits)
                qed
              qed
            qed
          qed
        qed
      qed
    qed
  qed
qed

lemma take_short_neq: "length s < length lit \<Longrightarrow> take (length lit) s \<noteq> lit"
proof
  assume short: "length s < length lit" and "take (length lit) s = lit"
  then have "length (take (length lit) s) = length lit" by (simp only:)
  with short show False by simp
qed

lemma drop_literal:
  assumes "take m (c # cs) = lit" and "length lit = m" and "m = Suc n"
  shows "drop n (cs @ ws) = drop n cs @ ws"
proof -
  from assms(1,2) have "length (take m (c # cs)) = m" by (simp only:)
  then have "n \<le> length cs" using assms(3) by simp
  then show ?thesis by simp
qed

lemma literal_append:
  assumes "\<forall>x\<in>set lit. x \<notin> set ws"
  shows "take (length lit) (s @ ws) = lit \<longleftrightarrow> take (length lit) s = lit"
proof (cases "length lit \<le> length s")
  case True
  then show ?thesis by simp
next
  case False
  then have short: "length s < length lit" by simp
  have 1: "take (length lit) s \<noteq> lit" using short by (rule take_short_neq)
  have 2: "take (length lit) (s @ ws) \<noteq> lit"
  proof
    assume eq: "take (length lit) (s @ ws) = lit"
    have split: "take (length lit) (s @ ws) = s @ take (length lit - length s) ws"
      using short by simp
    from eq have "length (take (length lit) (s @ ws)) = length lit" by (simp only:)
    then have "take (length lit - length s) ws \<noteq> []" using short by auto
    then obtain w where w: "w \<in> set (take (length lit - length s) ws)"
      by (cases "take (length lit - length s) ws") auto
    then have "w \<in> set ws" by (rule in_set_takeD)
    moreover from w have "w \<in> set (s @ take (length lit - length s) ws)" by simp
    then have "w \<in> set lit" unfolding split[symmetric] eq .
    ultimately show False using assms by blast
  qed
  from 1 2 show ?thesis by blast
qed

lemma literals_append:
  assumes "json_blank ws"
  shows "take 4 (s @ ws) = js ''true'' \<longleftrightarrow> take 4 s = js ''true''"
    and "take 5 (s @ ws) = js ''false'' \<longleftrightarrow> take 5 s = js ''false''"
    and "take 4 (s @ ws) = js ''null'' \<longleftrightarrow> take 4 s = js ''null''"
proof -
  have ws: "\<And>x. x \<in> set ws \<Longrightarrow> is_json_ws x"
    using assms by (simp add: json_blank_def)
  have t: "\<forall>x\<in>set (js ''true''). x \<notin> set ws"
  proof
    fix x assume "x \<in> set (js ''true'')"
    then have "\<not> is_json_ws x" by (auto simp: js_def is_json_ws_def)
    then show "x \<notin> set ws" using ws by blast
  qed
  have f: "\<forall>x\<in>set (js ''false''). x \<notin> set ws"
  proof
    fix x assume "x \<in> set (js ''false'')"
    then have "\<not> is_json_ws x" by (auto simp: js_def is_json_ws_def)
    then show "x \<notin> set ws" using ws by blast
  qed
  have n: "\<forall>x\<in>set (js ''null''). x \<notin> set ws"
  proof
    fix x assume "x \<in> set (js ''null'')"
    then have "\<not> is_json_ws x" by (auto simp: js_def is_json_ws_def)
    then show "x \<notin> set ws" using ws by blast
  qed
  have lt: "length (js ''true'') = 4" and lf: "length (js ''false'') = 5"
    and ln: "length (js ''null'') = 4"
    by (simp_all add: js_def)
  from literal_append[OF t, of s] show "take 4 (s @ ws) = js ''true'' \<longleftrightarrow> take 4 s = js ''true''"
    unfolding lt .
  from literal_append[OF f, of s] show "take 5 (s @ ws) = js ''false'' \<longleftrightarrow> take 5 s = js ''false''"
    unfolding lf .
  from literal_append[OF n, of s] show "take 4 (s @ ws) = js ''null'' \<longleftrightarrow> take 4 s = js ''null''"
    unfolding ln .
qed

lemma lex_trailing_blank: "json_blank ws \<Longrightarrow> lex (s @ ws) = lex s"
proof (induction s rule: lex.induct)
  case 1
  then show ?case by (simp add: lex_blank)
next
  case (2 c cs)
  note IH = "2.IH" and b = "2.prems"
  note lits = literals_append[OF b, of "c # cs"]
  show ?case
  proof (cases "is_json_ws c")
    case True
    from IH(1)[OF True b] True show ?thesis by simp
  next
    case n0: False
    show ?thesis
    proof (cases "c = 0x7B")
      case True
      from IH(2)[OF n0 True b] n0 True show ?thesis by simp
    next
      case n1: False
      show ?thesis
      proof (cases "c = 0x7D")
        case True
        from IH(3)[OF n0 n1 True b] n0 n1 True show ?thesis by simp
      next
        case n2: False
        show ?thesis
        proof (cases "c = 0x5B")
          case True
          from IH(4)[OF n0 n1 n2 True b] n0 n1 n2 True show ?thesis by simp
        next
          case n3: False
          show ?thesis
          proof (cases "c = 0x5D")
            case True
            from IH(5)[OF n0 n1 n2 n3 True b] n0 n1 n2 n3 True show ?thesis by simp
          next
            case n4: False
            show ?thesis
            proof (cases "c = 0x3A")
              case True
              from IH(6)[OF n0 n1 n2 n3 n4 True b] n0 n1 n2 n3 n4 True show ?thesis by simp
            next
              case n5: False
              show ?thesis
              proof (cases "c = 0x2C")
                case True
                from IH(7)[OF n0 n1 n2 n3 n4 n5 True b] n0 n1 n2 n3 n4 n5 True
                show ?thesis by simp
              next
                case n6: False
                note ns = n0 n1 n2 n3 n4 n5 n6
                show ?thesis
                proof (cases "c = DQ")
                  case True
                  show ?thesis
                  proof (cases "lex_string cs")
                    case None
                    with ns True b show ?thesis by (simp add: lex_string_append)
                  next
                    case (Some p)
                    obtain v r where p: "p = (v, r)" by (cases p)
                    from IH(8)[OF ns True Some p[symmetric] b] have "lex (r @ ws) = lex r" .
                    with ns True b Some p show ?thesis by (simp add: lex_string_append)
                  qed
                next
                  case n7: False
                  show ?thesis
                  proof (cases "c = 0x2D \<or> is_digit c")
                    case True
                    from lex_number_append[OF b, of "c # cs"]
                    have app: "lex_number (c # cs @ ws) = keep ws (lex_number (c # cs))" by simp
                    show ?thesis
                    proof (cases "lex_number (c # cs)")
                      case None
                      with ns n7 True app show ?thesis by simp
                    next
                      case (Some p)
                      obtain v r where p: "p = (v, r)" by (cases p)
                      from IH(9)[OF ns n7 True Some p[symmetric] b] have "lex (r @ ws) = lex r" .
                      with ns n7 True app Some p show ?thesis by simp
                    qed
                  next
                    case n8: False
                    show ?thesis
                    proof (cases "take 4 (c # cs) = js ''true''")
                      case True
                      then have d: "drop 3 (cs @ ws) = drop 3 cs @ ws"
                        by (rule drop_literal) (simp_all add: js_def)
                      from True lits(1) have t': "take 4 (c # cs @ ws) = js ''true''" by simp
                      from IH(10)[OF ns n7 n8 True b] have "lex (drop 3 cs @ ws) = lex (drop 3 cs)" .
                      with ns n7 n8 True t' d show ?thesis by (simp del: take_Cons_numeral drop_Cons_numeral)
                    next
                      case n9: False
                      with lits(1) have t': "take 4 (c # cs @ ws) \<noteq> js ''true''" by simp
                      show ?thesis
                      proof (cases "take 5 (c # cs) = js ''false''")
                        case True
                        then have d: "drop 4 (cs @ ws) = drop 4 cs @ ws"
                          by (rule drop_literal) (simp_all add: js_def)
                        from True lits(2) have f': "take 5 (c # cs @ ws) = js ''false''" by simp
                        from IH(11)[OF ns n7 n8 n9 True b]
                        have "lex (drop 4 cs @ ws) = lex (drop 4 cs)" .
                        with ns n7 n8 n9 True t' f' d show ?thesis
                          by (simp del: take_Cons_numeral drop_Cons_numeral)
                      next
                        case n10: False
                        with lits(2) have f': "take 5 (c # cs @ ws) \<noteq> js ''false''" by simp
                        show ?thesis
                        proof (cases "take 4 (c # cs) = js ''null''")
                          case True
                          then have d: "drop 3 (cs @ ws) = drop 3 cs @ ws"
                            by (rule drop_literal) (simp_all add: js_def)
                          from True lits(3) have n': "take 4 (c # cs @ ws) = js ''null''" by simp
                          from IH(12)[OF ns n7 n8 n9 n10 True b]
                          have "lex (drop 3 cs @ ws) = lex (drop 3 cs)" .
                          with ns n7 n8 n9 n10 True t' f' n' d show ?thesis
                            by (simp del: take_Cons_numeral drop_Cons_numeral)
                        next
                          case n11: False
                          with lits(3) have n': "take 4 (c # cs @ ws) \<noteq> js ''null''" by simp
                          with ns n7 n8 n9 n10 n11 t' f' show ?thesis
                            by (simp del: take_Cons_numeral drop_Cons_numeral)
                        qed
                      qed
                    qed
                  qed
                qed
              qed
            qed
          qed
        qed
      qed
    qed
  qed
qed

lemma json_blank_rev: "json_blank (rev ws) = json_blank ws"
  by (simp add: json_blank_def)

lemma json_blank_white: "is_json_ws c \<Longrightarrow> is_white_space c"
  by (auto simp: is_json_ws_def is_white_space_def)

lemma trim_decompose:
  assumes "dropWhile is_white_space l \<noteq> []"
  shows "l = takeWhile is_white_space l @ trim l @ rev (takeWhile is_white_space (rev l))"
proof -
  let ?W = is_white_space
  let ?a = "takeWhile ?W l" and ?m = "dropWhile ?W l"
  have l: "l = ?a @ ?m" by simp
  have "\<not> ?W (hd ?m)" using assms by (rule hd_dropWhile)
  moreover have "hd ?m \<in> set (rev ?m)" using assms by simp
  ultimately have tw: "takeWhile ?W (rev ?m @ rev ?a) = takeWhile ?W (rev ?m)"
    by (intro takeWhile_append1)
  have "rev l = rev ?m @ rev ?a" by (metis l rev_append)
  with tw have t: "takeWhile ?W (rev l) = takeWhile ?W (rev ?m)" by simp
  have m: "?m = trim l @ rev (takeWhile ?W (rev ?m))"
    unfolding trim_def by (metis rev_append rev_rev_ident takeWhile_dropWhile_id)
  show ?thesis
    using l m t by metis
qed

lemma JSON_parse_trim:
  assumes "json_blank (takeWhile is_white_space l)"
    and "json_blank (takeWhile is_white_space (rev l))"
  shows "JSON_parse (trim l) = JSON_parse l"
proof (cases "dropWhile is_white_space l = []")
  case True
  then have "takeWhile is_white_space l = l"
    by (metis append_Nil2 takeWhile_dropWhile_id)
  with assms(1) have "json_blank l" by simp
  then have "lex l = Some []" by (rule lex_blank)
  moreover have "trim l = []" unfolding trim_def True by simp
  ultimately show ?thesis by (simp add: JSON_parse_def)
next
  case False
  let ?a = "takeWhile is_white_space l" and ?b = "rev (takeWhile is_white_space (rev l))"
  from assms(2) have b: "json_blank ?b" by (simp add: json_blank_rev)
  from trim_decompose[OF False] have "lex l = lex (?a @ trim l @ ?b)" by simp
  also have "\<dots> = lex (trim l @ ?b)" using assms(1) by (rule lex_leading_blank)
  also have "\<dots> = lex (trim l)" using b by (rule lex_trailing_blank)
  finally show ?thesis by (simp add: JSON_parse_def)
qed


subsection \<open>The claims about the result\<close>

lemma last_entry_last_ex:
  assumes "\<exists>l\<in>set ls. entry_type l \<noteq> None"
  shows "\<exists>t. last_entry ls = Some t
             \<and> entry_type (last (filter (\<lambda>l. entry_type l \<noteq> None) ls)) = Some t"
proof -
  from last_entry_last[OF assms] have a: "last_entry ls = entry_type (last (filter (\<lambda>l. entry_type l \<noteq> None) ls))"
    and b: "last_entry ls \<noteq> None" by blast+
  from b obtain t where "last_entry ls = Some t" by blast
  with a show ?thesis by metis
qed

text \<open>
  C3 (amended): when the file opens, has a status with a size above 0, is read and
  closes, and the decoded window has a line with an entry, that is a line which, with
  the white space around it removed as \<open>String.prototype.trim\<close> removes it, parses as
  a JSON object with a string as \<open>type\<close>, the reader returns the type of the last
  such line together with the modification time of the status. A line that is empty or
  blank, whose trimmed text fails to parse, or whose value is not an object is passed
  over wherever it stands: the loop gives the same result with and without it. A file with the two
  records of types \<open>a\<close> and \<open>b\<close>, each ended by a line feed, gives \<open>b\<close>; when
  the second record is torn and unterminated, the result is \<open>a\<close>. A line is parsed
  with the white space around it removed; for a line whose white space at both ends is
  JSON white space, this is the parse of the line as it stands.
\<close>

theorem last_entry_returned:
  "(sys_open fs p = Inr fh \<and> sys_fstat fs fh = Inr st \<and> 0 < st_size st
      \<and> sys_read fs fh (min 4096 (st_size st)) (st_size st - min 4096 (st_size st)) = Inr data
      \<and> sys_close fs fh = Inr u
      \<and> (\<exists>l\<in>set (window_lines (take (min 4096 (st_size st)) data)). entry_type l \<noteq> None)
     \<longrightarrow> (\<exists>t. entry_type (last (filter (\<lambda>l. entry_type l \<noteq> None)
                   (window_lines (take (min 4096 (st_size st)) data)))) = Some t
            \<and> fst (readLastJsonlEntry fs p)
                = Returned (Some \<lparr>lastType = Some t, modifiedAt = st_mtime st\<rparr>)))
   \<and> (trim l = [] \<or> JSON_parse (trim l) = None
        \<or> (\<exists>v. JSON_parse (trim l) = Some v
                \<and> \<not> (typeof_json v = ''object'' \<and> v \<noteq> JNull \<and> \<not> Array_isArray v))
     \<longrightarrow> scan_lines (xs @ l # ys) (length (xs @ l # ys)) = scan_lines (xs @ ys) (length (xs @ ys)))
   \<and> fst (readLastJsonlEntry (regular_file q two_records m) q)
        = Returned (Some \<lparr>lastType = Some (js ''b''), modifiedAt = m\<rparr>)
   \<and> fst (readLastJsonlEntry (regular_file q torn_record m) q)
        = Returned (Some \<lparr>lastType = Some (js ''a''), modifiedAt = m\<rparr>)
   \<and> (json_blank (takeWhile is_white_space k) \<and> json_blank (takeWhile is_white_space (rev k))
     \<longrightarrow> JSON_parse (trim k) = JSON_parse k)"
proof (intro conjI impI)
  assume h: "sys_open fs p = Inr fh \<and> sys_fstat fs fh = Inr st \<and> 0 < st_size st
      \<and> sys_read fs fh (min 4096 (st_size st)) (st_size st - min 4096 (st_size st)) = Inr data
      \<and> sys_close fs fh = Inr u
      \<and> (\<exists>l\<in>set (window_lines (take (min 4096 (st_size st)) data)). entry_type l \<noteq> None)"
  let ?ls = "window_lines (take (min 4096 (st_size st)) data)"
  from h have ex: "\<exists>l\<in>set ?ls. entry_type l \<noteq> None" by blast
  from last_entry_last_ex[OF ex] obtain t where
    t: "last_entry ?ls = Some t"
    and l: "entry_type (last (filter (\<lambda>l. entry_type l \<noteq> None) ?ls)) = Some t"
    by blast
  from h have "readLastJsonlEntry fs p =
     (Returned (Some \<lparr>lastType = last_entry ?ls, modifiedAt = st_mtime st\<rparr>),
      [Open p, Fstat fh,
       Read fh (min 4096 (st_size st)) (st_size st - min 4096 (st_size st))
         (Inr (take (min 4096 (st_size st)) data)),
       Close fh])"
    by (intro readLast_read) blast+
  with t l show "\<exists>t. entry_type (last (filter (\<lambda>l. entry_type l \<noteq> None) ?ls)) = Some t
            \<and> fst (readLastJsonlEntry fs p)
                = Returned (Some \<lparr>lastType = Some t, modifiedAt = st_mtime st\<rparr>)"
    by simp
next
  assume "trim l = [] \<or> JSON_parse (trim l) = None
        \<or> (\<exists>v. JSON_parse (trim l) = Some v
                \<and> \<not> (typeof_json v = ''object'' \<and> v \<noteq> JNull \<and> \<not> Array_isArray v))"
  then have "entry_type l = None"
    by (auto simp: entry_type_def JSON_parse_Nil plain_object_iff split: option.splits json.splits)
  then show "scan_lines (xs @ l # ys) (length (xs @ l # ys)) = scan_lines (xs @ ys) (length (xs @ ys))"
    by (simp only: scan_lines_all last_entry_skip)
next
  have "two_records \<noteq> []" by (simp add: two_records_def ascii_def)
  then show "fst (readLastJsonlEntry (regular_file q two_records m) q)
        = Returned (Some \<lparr>lastType = Some (js ''b''), modifiedAt = m\<rparr>)"
    by (simp add: readLast_regular_file two_records_scan)
next
  have "torn_record \<noteq> []" by (simp add: torn_record_def ascii_def)
  then show "fst (readLastJsonlEntry (regular_file q torn_record m) q)
        = Returned (Some \<lparr>lastType = Some (js ''a''), modifiedAt = m\<rparr>)"
    by (simp add: readLast_regular_file torn_record_scan)
next
  assume "json_blank (takeWhile is_white_space k) \<and> json_blank (takeWhile is_white_space (rev k))"
  then show "JSON_parse (trim k) = JSON_parse k"
    using JSON_parse_trim by blast
qed

lemma two_records_length: "length two_records = 26"
  by (simp add: two_records_def ascii_def)

lemma two_records_has_entry:
  "\<exists>l\<in>set (window_lines (take 26 two_records)). entry_type l \<noteq> None"
  by code_simp

lemma two_records_last:
  "entry_type (last (filter (\<lambda>l. entry_type l \<noteq> None) (window_lines (take 26 two_records))))
     = Some (js ''b'')"
  by code_simp

lemma bad_line_examples:
  "trim [SP, TAB] = []" "JSON_parse (trim (js ''{torn'')) = None"
  "JSON_parse (trim (js '' [1] '')) = Some (JArray [JNumber (js ''1'')])"
  by code_simp+

theorem last_entry_returned_witness:
  "sys_open (regular_file (js ''log'') two_records 7) (js ''log'') = Inr 3
   \<and> sys_fstat (regular_file (js ''log'') two_records 7) 3 = Inr \<lparr>st_size = 26, st_mtime = 7\<rparr>
   \<and> sys_read (regular_file (js ''log'') two_records 7) 3 26 0 = Inr two_records
   \<and> sys_close (regular_file (js ''log'') two_records 7) 3 = Inr ()
   \<and> (\<exists>l\<in>set (window_lines (take 26 two_records)). entry_type l \<noteq> None)
   \<and> fst (readLastJsonlEntry (regular_file (js ''log'') two_records 7) (js ''log''))
       = Returned (Some \<lparr>lastType = Some (js ''b''), modifiedAt = 7\<rparr>)
   \<and> JSON_parse (trim (js ''{torn'')) = None
   \<and> scan_lines ([js ''x''] @ js ''{torn'' # [js ''y'']) (length ([js ''x''] @ js ''{torn'' # [js ''y'']))
       = scan_lines ([js ''x''] @ [js ''y'']) (length ([js ''x''] @ [js ''y'']))
   \<and> json_blank (takeWhile is_white_space (js '' [1] ''))
   \<and> json_blank (takeWhile is_white_space (rev (js '' [1] '')))
   \<and> JSON_parse (trim (js '' [1] '')) = JSON_parse (js '' [1] '')"
proof -
  let ?fs = "regular_file (js ''log'') two_records 7"
  let ?st = "\<lparr>st_size = 26, st_mtime = 7\<rparr> :: stats"
  have o: "sys_open ?fs (js ''log'') = Inr 3" by (simp add: regular_file_def)
  have s: "sys_fstat ?fs 3 = Inr ?st" by (simp add: regular_file_def two_records_length)
  have r: "sys_read ?fs 3 26 0 = Inr two_records"
    by (simp add: regular_file_def two_records_length)
  have c: "sys_close ?fs 3 = Inr ()" by (simp add: regular_file_def)
  note inst = last_entry_returned [of ?fs "js ''log''" 3 ?st two_records "()" "js ''{torn''"
      "[js ''x'']" "[js ''y'']", where k = "js '' [1] ''"]
  have tk: "min 4096 (st_size ?st) = 26" and mt: "st_mtime ?st = 7" by simp_all
  have h: "sys_open ?fs (js ''log'') = Inr 3 \<and> sys_fstat ?fs 3 = Inr ?st \<and> 0 < st_size ?st
      \<and> sys_read ?fs 3 (min 4096 (st_size ?st)) (st_size ?st - min 4096 (st_size ?st)) = Inr two_records
      \<and> sys_close ?fs 3 = Inr ()
      \<and> (\<exists>l\<in>set (window_lines (take (min 4096 (st_size ?st)) two_records)). entry_type l \<noteq> None)"
    unfolding tk using o s r c two_records_has_entry by simp
  from inst h obtain t where
    t: "entry_type (last (filter (\<lambda>l. entry_type l \<noteq> None)
                   (window_lines (take (min 4096 (st_size ?st)) two_records)))) = Some t"
    and ret: "fst (readLastJsonlEntry ?fs (js ''log''))
                = Returned (Some \<lparr>lastType = Some t, modifiedAt = st_mtime ?st\<rparr>)"
    by blast
  from t have "t = js ''b''"
    unfolding tk two_records_last by simp
  with ret have res: "fst (readLastJsonlEntry ?fs (js ''log''))
       = Returned (Some \<lparr>lastType = Some (js ''b''), modifiedAt = 7\<rparr>)"
    unfolding mt by simp
  from inst bad_line_examples(2)
  have skip: "scan_lines ([js ''x''] @ js ''{torn'' # [js ''y'']) (length ([js ''x''] @ js ''{torn'' # [js ''y'']))
       = scan_lines ([js ''x''] @ [js ''y'']) (length ([js ''x''] @ [js ''y'']))"
    by blast
  have blank: "json_blank (takeWhile is_white_space (js '' [1] ''))"
    "json_blank (takeWhile is_white_space (rev (js '' [1] '')))"
    by code_simp+
  from inst blank have same: "JSON_parse (trim (js '' [1] '')) = JSON_parse (js '' [1] '')"
    by blast
  from o s r c two_records_has_entry res bad_line_examples(2) skip blank same show ?thesis
    by blast
qed

lemma vt_second_lines:
  \<open>window_lines (tail_window vt_second) = [js ''{"type":"a"}'', 0x0B # js ''{"type":"b"}'', []]\<close>
  by code_simp

lemma vt_second_parses:
  \<open>JSON_parse (js ''{"type":"a"}'') = Some (JObject [(js ''type'', JString (js ''a''))])\<close>
  \<open>JSON_parse (0x0B # js ''{"type":"b"}'') = None\<close>
  by code_simp+

lemma vt_second_scan: "last_entry (window_lines (tail_window vt_second)) = Some (js ''b'')"
  by code_simp

text \<open>
  The file of two records of which the second begins with a vertical tab. As it stands
  the second line is no JSON text, so the first line is the last that parses, with type
  \<open>a\<close>; the reader removes the tab before parsing and returns \<open>b\<close>.
\<close>

theorem trimmed_line_returned:
  \<open>window_lines (tail_window vt_second) = [js ''{"type":"a"}'', 0x0B # js ''{"type":"b"}'', []]
   \<and> JSON_parse (js ''{"type":"a"}'') = Some (JObject [(js ''type'', JString (js ''a''))])
   \<and> JSON_parse (0x0B # js ''{"type":"b"}'') = None
   \<and> JSON_parse [] = None
   \<and> fst (readLastJsonlEntry (regular_file (js ''log'') vt_second 7) (js ''log''))
       = Returned (Some \<lparr>lastType = Some (js ''b''), modifiedAt = 7\<rparr>)\<close>
proof -
  have ne: "vt_second \<noteq> []" by (simp add: vt_second_def)
  have "fst (readLastJsonlEntry (regular_file (js ''log'') vt_second 7) (js ''log''))
       = Returned (Some \<lparr>lastType = Some (js ''b''), modifiedAt = 7\<rparr>)"
    by (simp add: readLast_regular_file[OF ne] vt_second_scan)
  with vt_second_lines vt_second_parses JSON_parse_Nil show ?thesis by blast
qed

lemma try_block_cases:
  "(\<exists>e. sys_fstat fs fh = Inl e \<and> try_block fs fh calls = (Inl e, calls @ [Fstat fh]))
   \<or> (\<exists>st. sys_fstat fs fh = Inr st \<and> st_size st = 0
         \<and> try_block fs fh calls = (Inr None, calls @ [Fstat fh]))
   \<or> (\<exists>st e. sys_fstat fs fh = Inr st \<and> 0 < st_size st
         \<and> sys_read fs fh (min 4096 (st_size st)) (st_size st - min 4096 (st_size st)) = Inl e
         \<and> try_block fs fh calls
             = (Inl e, calls @ [Fstat fh,
                  Read fh (min 4096 (st_size st)) (st_size st - min 4096 (st_size st)) (Inl e)]))
   \<or> (\<exists>st data. sys_fstat fs fh = Inr st \<and> 0 < st_size st
         \<and> sys_read fs fh (min 4096 (st_size st)) (st_size st - min 4096 (st_size st)) = Inr data
         \<and> try_block fs fh calls
             = (Inr (Some \<lparr>lastType = last_entry (window_lines (take (min 4096 (st_size st)) data)),
                             modifiedAt = st_mtime st\<rparr>),
                calls @ [Fstat fh,
                  Read fh (min 4096 (st_size st)) (st_size st - min 4096 (st_size st))
                    (Inr (take (min 4096 (st_size st)) data))]))"
proof (cases "sys_fstat fs fh")
  case (Inl e)
  then show ?thesis by (simp add: try_block_fstat_fails)
next
  case (Inr st)
  show ?thesis
  proof (cases "st_size st = 0")
    case True
    with Inr show ?thesis by (simp add: try_block_empty)
  next
    case False
    then have pos: "0 < st_size st" by simp
    show ?thesis
    proof (cases "sys_read fs fh (min 4096 (st_size st)) (st_size st - min 4096 (st_size st))")
      case (Inl e)
      from try_block_read_fails[OF Inr pos Inl] Inr pos Inl show ?thesis by simp
    next
      case r: (Inr data)
      from try_block_read[OF Inr pos r] Inr pos r show ?thesis by simp
    qed
  qed
qed

text \<open>
  C4 (amended): the reader returns \<open>null\<close> exactly when the file cannot be opened, or
  it is open and closes again and either its status cannot be obtained, or its size is
  0, or the read of the window fails. The call rejects exactly when the file is open and
  its handle fails to close. In every remaining case, that is when open, status, read
  and close all succeed and the size is above 0, the result is not \<open>null\<close>.
\<close>

theorem null_result_cases:
  "(fst (readLastJsonlEntry fs p) = Returned None
      \<longleftrightarrow> (\<exists>e. sys_open fs p = Inl e)
          \<or> (\<exists>fh u. sys_open fs p = Inr fh \<and> sys_close fs fh = Inr u
                \<and> ((\<exists>e. sys_fstat fs fh = Inl e)
                    \<or> (\<exists>st. sys_fstat fs fh = Inr st
                          \<and> (st_size st = 0
                              \<or> (\<exists>e. sys_read fs fh (min 4096 (st_size st))
                                         (st_size st - min 4096 (st_size st)) = Inl e))))))
   \<and> ((\<exists>e. fst (readLastJsonlEntry fs p) = Rejected e)
      \<longleftrightarrow> (\<exists>fh e. sys_open fs p = Inr fh \<and> sys_close fs fh = Inl e))
   \<and> ((\<exists>r. fst (readLastJsonlEntry fs p) = Returned (Some r))
      \<longleftrightarrow> (\<exists>fh st data u. sys_open fs p = Inr fh \<and> sys_fstat fs fh = Inr st \<and> 0 < st_size st
             \<and> sys_read fs fh (min 4096 (st_size st)) (st_size st - min 4096 (st_size st)) = Inr data
             \<and> sys_close fs fh = Inr u))"
proof (cases "sys_open fs p")
  case (Inl e)
  then show ?thesis by (simp add: readLast_open_fails)
next
  case (Inr fh)
  note opened = readLast_opened[OF Inr]
  show ?thesis
  proof (cases "sys_close fs fh")
    case (Inl e)
    with Inr opened show ?thesis by simp
  next
    case c: (Inr u)
    from try_block_cases[of fs fh "[Open p]"] show ?thesis
    proof (elim disjE exE conjE)
      fix e assume "sys_fstat fs fh = Inl e"
        "try_block fs fh [Open p] = (Inl e, [Open p] @ [Fstat fh])"
      with Inr c opened show ?thesis by simp
    next
      fix st assume "sys_fstat fs fh = Inr st" "st_size st = 0"
        "try_block fs fh [Open p] = (Inr None, [Open p] @ [Fstat fh])"
      with Inr c opened show ?thesis by simp
    next
      fix st e assume "sys_fstat fs fh = Inr st" "0 < st_size st"
        "sys_read fs fh (min 4096 (st_size st)) (st_size st - min 4096 (st_size st)) = Inl e"
        "try_block fs fh [Open p]
             = (Inl e, [Open p] @ [Fstat fh,
                  Read fh (min 4096 (st_size st)) (st_size st - min 4096 (st_size st)) (Inl e)])"
      with Inr c opened show ?thesis by simp
    next
      fix st data assume "sys_fstat fs fh = Inr st" "0 < st_size st"
        "sys_read fs fh (min 4096 (st_size st)) (st_size st - min 4096 (st_size st)) = Inr data"
        "try_block fs fh [Open p]
             = (Inr (Some \<lparr>lastType = last_entry (window_lines (take (min 4096 (st_size st)) data)),
                             modifiedAt = st_mtime st\<rparr>),
                [Open p] @ [Fstat fh,
                  Read fh (min 4096 (st_size st)) (st_size st - min 4096 (st_size st))
                    (Inr (take (min 4096 (st_size st)) data))])"
      with Inr c opened show ?thesis by simp
    qed
  qed
qed

theorem null_result_cases_witness:
  "sys_open (regular_file (js ''log'') [] 7) (js ''log'') = Inr 3
   \<and> sys_close (regular_file (js ''log'') [] 7) 3 = Inr ()
   \<and> sys_fstat (regular_file (js ''log'') [] 7) 3 = Inr \<lparr>st_size = 0, st_mtime = 7\<rparr>
   \<and> fst (readLastJsonlEntry (regular_file (js ''log'') [] 7) (js ''log'')) = Returned None
   \<and> sys_open (regular_file (js ''log'') [] 7) (js ''other'') = Inl ENOENT
   \<and> fst (readLastJsonlEntry (regular_file (js ''log'') [] 7) (js ''other'')) = Returned None"
proof -
  let ?fs = "regular_file (js ''log'') [] 7"
  have o: "sys_open ?fs (js ''log'') = Inr 3" by (simp add: regular_file_def)
  have c: "sys_close ?fs 3 = Inr ()" by (simp add: regular_file_def)
  have s: "sys_fstat ?fs 3 = Inr \<lparr>st_size = 0, st_mtime = 7\<rparr>" by (simp add: regular_file_def)
  have z: "st_size \<lparr>st_size = 0, st_mtime = 7\<rparr> = 0" by simp
  have o': "sys_open ?fs (js ''other'') = Inl ENOENT" by (simp add: regular_file_def js_def)
  from null_result_cases[of ?fs "js ''log''"] o c s z
  have 1: "fst (readLastJsonlEntry ?fs (js ''log'')) = Returned None" by blast
  from null_result_cases[of ?fs "js ''other''"] o'
  have 2: "fst (readLastJsonlEntry ?fs (js ''other'')) = Returned None" by blast
  from o c s o' 1 2 show ?thesis by blast
qed

text \<open>
  A directory opens and has a status of size 4096, so it is neither unopenable nor
  without status nor empty; reading it fails, and the reader returns \<open>null\<close>. A
  readable file with a record whose handle fails to close gives neither \<open>null\<close> nor a
  result: the call rejects.
\<close>

theorem null_after_failed_read:
  "sys_open unreadable_directory (js ''dir'') = Inr 3
   \<and> sys_fstat unreadable_directory 3 = Inr \<lparr>st_size = 4096, st_mtime = 0\<rparr>
   \<and> fst (readLastJsonlEntry unreadable_directory (js ''dir'')) = Returned None
   \<and> sys_open failing_close (js ''log'') = Inr 3
   \<and> sys_fstat failing_close 3 = Inr \<lparr>st_size = 26, st_mtime = 0\<rparr>
   \<and> fst (readLastJsonlEntry failing_close (js ''log'')) = Rejected EIO"
proof (intro conjI)
  show o: "sys_open unreadable_directory (js ''dir'') = Inr 3"
    by (simp add: unreadable_directory_def)
  show "sys_fstat unreadable_directory 3 = Inr \<lparr>st_size = 4096, st_mtime = 0\<rparr>"
    by (simp add: unreadable_directory_def)
  have "fst (try_block unreadable_directory 3 [Open (js ''dir'')]) = Inl EISDIR"
    by (simp add: try_block_def unreadable_directory_def fh_stat_def fh_read_def
          TAIL_READ_BYTES_def)
  then show "fst (readLastJsonlEntry unreadable_directory (js ''dir'')) = Returned None"
    by (simp add: readLast_opened[OF o]) (simp add: unreadable_directory_def)
  show o2: "sys_open failing_close (js ''log'') = Inr 3"
    by (simp add: failing_close_def regular_file_def)
  show "sys_fstat failing_close 3 = Inr \<lparr>st_size = 26, st_mtime = 0\<rparr>"
    by (simp add: failing_close_def regular_file_def two_records_length)
  show "fst (readLastJsonlEntry failing_close (js ''log'')) = Rejected EIO"
    by (simp add: readLast_opened[OF o2]) (simp add: failing_close_def)
qed

lemma straddling_length: "length straddling_line = 4106"
  by (simp add: straddling_line_def ascii_def)

lemma reads_simps:
  "reads [] = []"
  "reads (Open q # cs) = reads cs"
  "reads (Fstat fh # cs) = reads cs"
  "reads (Close fh # cs) = reads cs"
  "reads (Read fh n pos out # cs) = (n, pos, out) # reads cs"
  by (simp_all add: reads_def List.map_filter_simps)

lemma tail_window_length: "length (tail_window content) = min 4096 (length content)"
  by (simp add: tail_window_def)

lemma tail_window_whole: "length content \<le> 4096 \<Longrightarrow> tail_window content = content"
  by (simp add: tail_window_def)

text \<open>
  C5 (amended): for a file that opens and has a status of size \<open>S > 0\<close>, the reader
  makes exactly one read: it asks for \<open>min 4096 S\<close> bytes at position
  \<open>S - min 4096 S\<close>, that is for \<open>S\<close> bytes at position 0 when \<open>S \<le> 4096\<close>,
  the read delivers what the file system gives, cut at the length asked for, and the
  result is computed from the bytes delivered and from nothing else of the file. For
  every file system the log has at most one read, at most 4096 bytes are asked for, and
  no more bytes are delivered than asked for. For a regular file with a content of
  \<open>S > 0\<close> bytes the read delivers exactly the last \<open>min 4096 S\<close> bytes of the
  content, which is the whole content when \<open>S \<le> 4096\<close>.
\<close>

theorem one_window_read:
  "(sys_open fs p = Inr fh \<and> sys_fstat fs fh = Inr st \<and> 0 < st_size st
     \<longrightarrow> reads (snd (readLastJsonlEntry fs p))
           = [(min 4096 (st_size st), st_size st - min 4096 (st_size st),
               map_sum id (take (min 4096 (st_size st)))
                 (sys_read fs fh (min 4096 (st_size st)) (st_size st - min 4096 (st_size st))))]
         \<and> (st_size st \<le> 4096
              \<longrightarrow> map (\<lambda>(len, position, out). (len, position)) (reads (snd (readLastJsonlEntry fs p)))
                    = [(st_size st, 0)])
         \<and> (sys_read fs fh (min 4096 (st_size st)) (st_size st - min 4096 (st_size st)) = Inr data
              \<and> sys_close fs fh = Inr u
              \<longrightarrow> fst (readLastJsonlEntry fs p)
                    = Returned (Some \<lparr>lastType = last_entry (window_lines (take (min 4096 (st_size st)) data)),
                                       modifiedAt = st_mtime st\<rparr>)))
   \<and> length (reads (snd (readLastJsonlEntry fs p))) \<le> 1
   \<and> bytes_requested (snd (readLastJsonlEntry fs p)) \<le> 4096
   \<and> bytes_delivered (snd (readLastJsonlEntry fs p)) \<le> bytes_requested (snd (readLastJsonlEntry fs p))
   \<and> (content \<noteq> []
     \<longrightarrow> reads (snd (readLastJsonlEntry (regular_file q content m) q))
           = [(min 4096 (length content), length content - min 4096 (length content),
               Inr (tail_window content))]
         \<and> tail_window content = drop (length content - min 4096 (length content)) content
         \<and> bytes_delivered (snd (readLastJsonlEntry (regular_file q content m) q))
             = min 4096 (length content)
         \<and> (length content \<le> 4096 \<longrightarrow> tail_window content = content))"
proof -
  have general: "length (reads (snd (readLastJsonlEntry fs p))) \<le> 1
      \<and> bytes_requested (snd (readLastJsonlEntry fs p)) \<le> 4096
      \<and> bytes_delivered (snd (readLastJsonlEntry fs p)) \<le> bytes_requested (snd (readLastJsonlEntry fs p))"
  proof (cases "sys_open fs p")
    case (Inl e)
    then show ?thesis
      by (simp add: readLast_open_fails reads_simps bytes_requested_def bytes_delivered_def)
  next
    case (Inr fh')
    from try_block_cases[of fs fh' "[Open p]"] show ?thesis
      by (elim disjE exE conjE)
         (auto simp: readLast_opened[OF Inr] reads_simps bytes_requested_def bytes_delivered_def)
  qed
  have one: "reads (snd (readLastJsonlEntry fs p))
           = [(min 4096 (st_size st), st_size st - min 4096 (st_size st),
               map_sum id (take (min 4096 (st_size st)))
                 (sys_read fs fh (min 4096 (st_size st)) (st_size st - min 4096 (st_size st))))]"
    if o: "sys_open fs p = Inr fh" and s: "sys_fstat fs fh = Inr st" and pos: "0 < st_size st"
  proof (cases "sys_read fs fh (min 4096 (st_size st)) (st_size st - min 4096 (st_size st))")
    case (Inl e)
    from try_block_read_fails[OF s pos Inl, of "[Open p]"] Inl show ?thesis
      by (simp add: readLast_opened[OF o] reads_simps)
  next
    case (Inr data')
    from try_block_read[OF s pos Inr, of "[Open p]"] Inr show ?thesis
      by (simp add: readLast_opened[OF o] reads_simps)
  qed
  have first: "sys_open fs p = Inr fh \<and> sys_fstat fs fh = Inr st \<and> 0 < st_size st
     \<longrightarrow> reads (snd (readLastJsonlEntry fs p))
           = [(min 4096 (st_size st), st_size st - min 4096 (st_size st),
               map_sum id (take (min 4096 (st_size st)))
                 (sys_read fs fh (min 4096 (st_size st)) (st_size st - min 4096 (st_size st))))]
         \<and> (st_size st \<le> 4096
              \<longrightarrow> map (\<lambda>(len, position, out). (len, position)) (reads (snd (readLastJsonlEntry fs p)))
                    = [(st_size st, 0)])
         \<and> (sys_read fs fh (min 4096 (st_size st)) (st_size st - min 4096 (st_size st)) = Inr data
              \<and> sys_close fs fh = Inr u
              \<longrightarrow> fst (readLastJsonlEntry fs p)
                    = Returned (Some \<lparr>lastType = last_entry (window_lines (take (min 4096 (st_size st)) data)),
                                       modifiedAt = st_mtime st\<rparr>))"
  proof (intro impI conjI)
    assume h: "sys_open fs p = Inr fh \<and> sys_fstat fs fh = Inr st \<and> 0 < st_size st"
    then have o: "sys_open fs p = Inr fh" and s: "sys_fstat fs fh = Inr st" and pos: "0 < st_size st"
      by blast+
    show r: "reads (snd (readLastJsonlEntry fs p))
           = [(min 4096 (st_size st), st_size st - min 4096 (st_size st),
               map_sum id (take (min 4096 (st_size st)))
                 (sys_read fs fh (min 4096 (st_size st)) (st_size st - min 4096 (st_size st))))]"
      by (rule one[OF o s pos])
    {
      assume "st_size st \<le> 4096"
      then show "map (\<lambda>(len, position, out). (len, position)) (reads (snd (readLastJsonlEntry fs p)))
                    = [(st_size st, 0)]"
        unfolding r by (simp add: min_def)
    }
    {
      assume "sys_read fs fh (min 4096 (st_size st)) (st_size st - min 4096 (st_size st)) = Inr data
              \<and> sys_close fs fh = Inr u"
      then have rd: "sys_read fs fh (min 4096 (st_size st)) (st_size st - min 4096 (st_size st)) = Inr data"
        and c: "sys_close fs fh = Inr u" by blast+
      show "fst (readLastJsonlEntry fs p)
                    = Returned (Some \<lparr>lastType = last_entry (window_lines (take (min 4096 (st_size st)) data)),
                                       modifiedAt = st_mtime st\<rparr>)"
        by (simp add: readLast_read[OF o s pos rd c])
    }
  qed
  have regular: "content \<noteq> []
     \<longrightarrow> reads (snd (readLastJsonlEntry (regular_file q content m) q))
           = [(min 4096 (length content), length content - min 4096 (length content),
               Inr (tail_window content))]
         \<and> tail_window content = drop (length content - min 4096 (length content)) content
         \<and> bytes_delivered (snd (readLastJsonlEntry (regular_file q content m) q))
             = min 4096 (length content)
         \<and> (length content \<le> 4096 \<longrightarrow> tail_window content = content)"
    by (simp add: readLast_regular_file reads_simps bytes_delivered_def tail_window_length
          tail_window_whole)
       (simp add: tail_window_def)
  from first general regular show ?thesis by blast
qed


lemma two_records_window_scan:
  "last_entry (window_lines (take 26 two_records)) = Some (js ''b'')"
  by code_simp

theorem one_window_read_witness:
  "sys_open (regular_file (js ''log'') straddling_line 7) (js ''log'') = Inr 3
   \<and> sys_fstat (regular_file (js ''log'') straddling_line 7) 3 = Inr \<lparr>st_size = 4106, st_mtime = 7\<rparr>
   \<and> sys_read (regular_file (js ''log'') straddling_line 7) 3 4096 10 = Inr (tail_window straddling_line)
   \<and> reads (snd (readLastJsonlEntry (regular_file (js ''log'') straddling_line 7) (js ''log'')))
       = [(4096, 10, Inr (tail_window straddling_line))]
   \<and> length (tail_window straddling_line) = 4096
   \<and> two_records \<noteq> []
   \<and> reads (snd (readLastJsonlEntry (regular_file (js ''log'') two_records 7) (js ''log'')))
       = [(26, 0, Inr two_records)]
   \<and> bytes_delivered (snd (readLastJsonlEntry (regular_file (js ''log'') two_records 7) (js ''log'')))
       = 26
   \<and> sys_open (regular_file (js ''log'') two_records 7) (js ''log'') = Inr 3
   \<and> sys_fstat (regular_file (js ''log'') two_records 7) 3 = Inr \<lparr>st_size = 26, st_mtime = 7\<rparr>
   \<and> sys_read (regular_file (js ''log'') two_records 7) 3 26 0 = Inr two_records
   \<and> sys_close (regular_file (js ''log'') two_records 7) 3 = Inr ()
   \<and> map (\<lambda>(len, position, out). (len, position))
         (reads (snd (readLastJsonlEntry (regular_file (js ''log'') two_records 7) (js ''log''))))
       = [(26, 0)]
   \<and> fst (readLastJsonlEntry (regular_file (js ''log'') two_records 7) (js ''log''))
       = Returned (Some \<lparr>lastType = Some (js ''b''), modifiedAt = 7\<rparr>)"
proof -
  let ?big = "regular_file (js ''log'') straddling_line 7"
  let ?small = "regular_file (js ''log'') two_records 7"
  let ?sb = "\<lparr>st_size = 4106, st_mtime = 7\<rparr> :: stats"
  let ?ss = "\<lparr>st_size = 26, st_mtime = 7\<rparr> :: stats"
  have ob: "sys_open ?big (js ''log'') = Inr 3" by (simp add: regular_file_def)
  have sb: "sys_fstat ?big 3 = Inr ?sb" by (simp add: regular_file_def straddling_length)
  have pb: "0 < st_size ?sb" by simp
  have rb: "sys_read ?big 3 4096 10 = Inr (tail_window straddling_line)"
    by (simp add: regular_file_def tail_window_def straddling_length)
  have tl: "length (tail_window straddling_line) = 4096"
    by (simp add: tail_window_def straddling_length)
  from one_window_read[of ?big "js ''log''" 3 ?sb] ob sb pb
  have "reads (snd (readLastJsonlEntry ?big (js ''log'')))
           = [(min 4096 (st_size ?sb), st_size ?sb - min 4096 (st_size ?sb),
               map_sum id (take (min 4096 (st_size ?sb)))
                 (sys_read ?big 3 (min 4096 (st_size ?sb)) (st_size ?sb - min 4096 (st_size ?sb))))]"
    by blast
  then have 1: "reads (snd (readLastJsonlEntry ?big (js ''log'')))
       = [(4096, 10, Inr (tail_window straddling_line))]"
    using rb tl by simp
  have ne: "two_records \<noteq> []" by (simp add: two_records_def ascii_def)
  from one_window_read[where content = two_records and q = "js ''log''" and m = 7] ne
  have "reads (snd (readLastJsonlEntry ?small (js ''log'')))
           = [(min 4096 (length two_records), length two_records - min 4096 (length two_records),
               Inr (tail_window two_records))]"
    and "bytes_delivered (snd (readLastJsonlEntry ?small (js ''log''))) = min 4096 (length two_records)"
    and "length two_records \<le> 4096 \<longrightarrow> tail_window two_records = two_records"
    by blast+
  then have 2: "reads (snd (readLastJsonlEntry ?small (js ''log''))) = [(26, 0, Inr two_records)]"
    and 3: "bytes_delivered (snd (readLastJsonlEntry ?small (js ''log''))) = 26"
    by (simp_all add: two_records_length)
  have os: "sys_open ?small (js ''log'') = Inr 3" by (simp add: regular_file_def)
  have ss: "sys_fstat ?small 3 = Inr ?ss" by (simp add: regular_file_def two_records_length)
  have rs: "sys_read ?small 3 26 0 = Inr two_records"
    by (simp add: regular_file_def two_records_length)
  have cs: "sys_close ?small 3 = Inr ()" by (simp add: regular_file_def)
  have ms: "min 4096 (st_size ?ss) = 26" "st_size ?ss - min 4096 (st_size ?ss) = 0"
    "st_mtime ?ss = 7" by simp_all
  have h1: "sys_open ?small (js ''log'') = Inr 3 \<and> sys_fstat ?small 3 = Inr ?ss \<and> 0 < st_size ?ss"
    using os ss by simp
  have h2: "st_size ?ss \<le> 4096" by simp
  have h3: "sys_read ?small 3 (min 4096 (st_size ?ss)) (st_size ?ss - min 4096 (st_size ?ss))
              = Inr two_records \<and> sys_close ?small 3 = Inr ()"
    unfolding ms using rs cs by simp
  note inst = one_window_read[of ?small "js ''log''" 3 ?ss two_records "()"]
  from inst h1 h2
  have 4: "map (\<lambda>(len, position, out). (len, position)) (reads (snd (readLastJsonlEntry ?small (js ''log''))))
             = [(st_size ?ss, 0)]"
    by blast
  from inst h1 h3
  have 5: "fst (readLastJsonlEntry ?small (js ''log''))
             = Returned (Some \<lparr>lastType = last_entry (window_lines (take (min 4096 (st_size ?ss)) two_records)),
                                modifiedAt = st_mtime ?ss\<rparr>)"
    by blast
  from 4 have w4: "map (\<lambda>(len, position, out). (len, position))
         (reads (snd (readLastJsonlEntry ?small (js ''log'')))) = [(26, 0)]"
    by simp
  from 5 have w5: "fst (readLastJsonlEntry ?small (js ''log''))
       = Returned (Some \<lparr>lastType = Some (js ''b''), modifiedAt = 7\<rparr>)"
    unfolding ms two_records_window_scan .
  from ob sb rb 1 tl ne 2 3 os ss rs cs w4 w5 show ?thesis by blast
qed

text \<open>
  The file whose status reports 4096 bytes and which holds six: the one read asks for
  4096 bytes at position 0 and delivers 6 bytes, not 4096.
\<close>

theorem short_read_delivers_less:
  "sys_open short_attribute (js ''attr'') = Inr 3
   \<and> sys_fstat short_attribute 3 = Inr \<lparr>st_size = 4096, st_mtime = 0\<rparr>
   \<and> reads (snd (readLastJsonlEntry short_attribute (js ''attr'')))
       = [(4096, 0, Inr (ascii ''hello\<newline>''))]
   \<and> bytes_delivered (snd (readLastJsonlEntry short_attribute (js ''attr''))) = 6"
proof -
  have o: "sys_open short_attribute (js ''attr'') = Inr 3" by (simp add: short_attribute_def)
  have s: "sys_fstat short_attribute 3 = Inr \<lparr>st_size = 4096, st_mtime = 0\<rparr>"
    by (simp add: short_attribute_def)
  have r: "sys_read short_attribute 3 (min 4096 (st_size \<lparr>st_size = 4096, st_mtime = 0\<rparr>))
            (st_size \<lparr>st_size = 4096, st_mtime = 0\<rparr> - min 4096 (st_size \<lparr>st_size = 4096, st_mtime = 0\<rparr>))
           = Inr (ascii ''hello\<newline>'')"
    by (simp add: short_attribute_def ascii_def)
  have c: "sys_close short_attribute 3 = Inr ()" by (simp add: short_attribute_def)
  have "snd (readLastJsonlEntry short_attribute (js ''attr''))
          = [Open (js ''attr''), Fstat 3, Read 3 4096 0 (Inr (ascii ''hello\<newline>'')), Close 3]"
    using readLast_read[OF o s _ r c] by (simp add: ascii_def)
  then have "reads (snd (readLastJsonlEntry short_attribute (js ''attr'')))
       = [(4096, 0, Inr (ascii ''hello\<newline>''))]"
    by (simp add: reads_simps)
  moreover from this
  have "bytes_delivered (snd (readLastJsonlEntry short_attribute (js ''attr''))) = 6"
    by (simp add: bytes_delivered_def ascii_def)
  ultimately show ?thesis using o s by blast
qed

text \<open>
  C6 (amended): when the file opens, has a status with a size above 0, is read and
  closes, and no line of the decoded window has an entry, each line taken with the
  white space around it removed, the reader returns a result with \<open>lastType\<close>
  \<open>null\<close> and the modification time, not \<open>null\<close>. In particular this is so for a
  file longer than 4096 bytes whose window of the last 4096 bytes, the cut first line
  included, has no line with an entry, whatever stands before the window.
\<close>

theorem no_entry_in_window:
  "(sys_open fs p = Inr fh \<and> sys_fstat fs fh = Inr st \<and> 0 < st_size st
      \<and> sys_read fs fh (min 4096 (st_size st)) (st_size st - min 4096 (st_size st)) = Inr data
      \<and> sys_close fs fh = Inr u
      \<and> (\<forall>l\<in>set (window_lines (take (min 4096 (st_size st)) data)). entry_type l = None)
     \<longrightarrow> fst (readLastJsonlEntry fs p)
           = Returned (Some \<lparr>lastType = None, modifiedAt = st_mtime st\<rparr>))
   \<and> (older \<noteq> [] \<and> length window = 4096
      \<and> (\<forall>l\<in>set (window_lines window). entry_type l = None)
     \<longrightarrow> fst (readLastJsonlEntry (regular_file q (older @ window) m) q)
           = Returned (Some \<lparr>lastType = None, modifiedAt = m\<rparr>))"
proof (intro conjI impI)
  assume h: "sys_open fs p = Inr fh \<and> sys_fstat fs fh = Inr st \<and> 0 < st_size st
      \<and> sys_read fs fh (min 4096 (st_size st)) (st_size st - min 4096 (st_size st)) = Inr data
      \<and> sys_close fs fh = Inr u
      \<and> (\<forall>l\<in>set (window_lines (take (min 4096 (st_size st)) data)). entry_type l = None)"
  then have "last_entry (window_lines (take (min 4096 (st_size st)) data)) = None"
    by (intro last_entry_none) blast
  moreover from h have "readLastJsonlEntry fs p =
     (Returned (Some \<lparr>lastType = last_entry (window_lines (take (min 4096 (st_size st)) data)),
                        modifiedAt = st_mtime st\<rparr>),
      [Open p, Fstat fh,
       Read fh (min 4096 (st_size st)) (st_size st - min 4096 (st_size st))
         (Inr (take (min 4096 (st_size st)) data)),
       Close fh])"
    by (intro readLast_read) blast+
  ultimately show "fst (readLastJsonlEntry fs p)
           = Returned (Some \<lparr>lastType = None, modifiedAt = st_mtime st\<rparr>)"
    by simp
next
  assume h: "older \<noteq> [] \<and> length window = 4096
      \<and> (\<forall>l\<in>set (window_lines window). entry_type l = None)"
  then have "last_entry (window_lines window) = None"
    by (intro last_entry_none) blast
  moreover from h have "tail_window (older @ window) = window"
    by (intro tail_window_append) blast
  moreover from h have "older @ window \<noteq> []" by simp
  ultimately show "fst (readLastJsonlEntry (regular_file q (older @ window) m) q)
           = Returned (Some \<lparr>lastType = None, modifiedAt = m\<rparr>)"
    by (simp add: readLast_regular_file)
qed

lemma old_entry_prefix: \<open>last_entry (window_lines (ascii ''{"type":"a"}\<newline>'')) = Some (js ''a'')\<close>
  by code_simp

lemma hello_no_entry: "\<forall>l\<in>set (window_lines (take 5 (ascii ''hello''))). entry_type l = None"
  by code_simp

theorem no_entry_in_window_witness:
  \<open>sys_open (regular_file (js ''log'') (ascii ''hello'') 7) (js ''log'') = Inr 3
   \<and> sys_fstat (regular_file (js ''log'') (ascii ''hello'') 7) 3 = Inr \<lparr>st_size = 5, st_mtime = 7\<rparr>
   \<and> sys_read (regular_file (js ''log'') (ascii ''hello'') 7) 3 5 0 = Inr (ascii ''hello'')
   \<and> sys_close (regular_file (js ''log'') (ascii ''hello'') 7) 3 = Inr ()
   \<and> map entry_type (window_lines (take 5 (ascii ''hello''))) = [None]
   \<and> fst (readLastJsonlEntry (regular_file (js ''log'') (ascii ''hello'') 7) (js ''log''))
       = Returned (Some \<lparr>lastType = None, modifiedAt = 7\<rparr>)
   \<and> ascii ''{"type":"a"}\<newline>'' \<noteq> []
   \<and> last_entry (window_lines (ascii ''{"type":"a"}\<newline>'')) = Some (js ''a'')
   \<and> length (replicate 4096 (0x20 :: byte)) = 4096
   \<and> map entry_type (window_lines (replicate 4096 0x20)) = [None]
   \<and> fst (readLastJsonlEntry
            (regular_file (js ''log'') (ascii ''{"type":"a"}\<newline>'' @ replicate 4096 0x20) 7) (js ''log''))
       = Returned (Some \<lparr>lastType = None, modifiedAt = 7\<rparr>)\<close>
proof -
  let ?fs = "regular_file (js ''log'') (ascii ''hello'') 7"
  let ?st = "\<lparr>st_size = 5, st_mtime = 7\<rparr> :: stats"
  have o: "sys_open ?fs (js ''log'') = Inr 3" by (simp add: regular_file_def)
  have s: "sys_fstat ?fs 3 = Inr ?st" by (simp add: regular_file_def ascii_def)
  have r: "sys_read ?fs 3 5 0 = Inr (ascii ''hello'')" by (simp add: regular_file_def ascii_def)
  have c: "sys_close ?fs 3 = Inr ()" by (simp add: regular_file_def)
  have tk: "min 4096 (st_size ?st) = 5" and mt: "st_mtime ?st = 7" by simp_all
  have h: "sys_open ?fs (js ''log'') = Inr 3 \<and> sys_fstat ?fs 3 = Inr ?st \<and> 0 < st_size ?st
      \<and> sys_read ?fs 3 (min 4096 (st_size ?st)) (st_size ?st - min 4096 (st_size ?st)) = Inr (ascii ''hello'')
      \<and> sys_close ?fs 3 = Inr ()
      \<and> (\<forall>l\<in>set (window_lines (take (min 4096 (st_size ?st)) (ascii ''hello''))). entry_type l = None)"
    unfolding tk using o s r c hello_no_entry by simp
  note inst = no_entry_in_window [of ?fs "js ''log''" 3 ?st "ascii ''hello''" "()"
      \<open>ascii ''{"type":"a"}\<newline>''\<close> "replicate 4096 0x20" "js ''log''" 7]
  from inst h have "fst (readLastJsonlEntry ?fs (js ''log''))
           = Returned (Some \<lparr>lastType = None, modifiedAt = st_mtime ?st\<rparr>)"
    by blast
  then have 1: "fst (readLastJsonlEntry ?fs (js ''log''))
       = Returned (Some \<lparr>lastType = None, modifiedAt = 7\<rparr>)"
    unfolding mt .
  have ne: \<open>ascii ''{"type":"a"}\<newline>'' \<noteq> []\<close> by (simp add: ascii_def)
  have len: "length (replicate 4096 (0x20 :: byte)) = 4096" by simp
  have blank: "\<forall>l\<in>set (window_lines (replicate 4096 0x20)). entry_type l = None"
    by (simp add: blank_window_lines entry_type_blank)
  from inst ne len blank
  have 2: \<open>fst (readLastJsonlEntry
            (regular_file (js ''log'') (ascii ''{"type":"a"}\<newline>'' @ replicate 4096 0x20) 7) (js ''log''))
       = Returned (Some \<lparr>lastType = None, modifiedAt = 7\<rparr>)\<close>
    by blast
  have hello: "map entry_type (window_lines (take 5 (ascii ''hello''))) = [None]"
    by code_simp
  have blanks: "map entry_type (window_lines (replicate 4096 0x20)) = [None]"
    by (simp add: blank_window_lines entry_type_blank)
  from o s r c hello 1 ne old_entry_prefix len blanks 2 show ?thesis
    by blast
qed

lemma split_on_first:
  "sep \<notin> set xs \<Longrightarrow> split_on sep (xs @ sep # ys) = xs # split_on sep ys"
  by (induction xs) (auto simp: split_on_not_Nil split: list.splits)

lemma entry_before_fragment_length: "length entry_before_fragment = 4119"
  by (simp add: entry_before_fragment_def straddling_length ascii_def)

lemma entry_before_fragment_window:
  \<open>tail_window entry_before_fragment = ascii ''{"type":"frag"}'' @ replicate 4081 0x20\<close>
proof -
  have eq: \<open>entry_before_fragment
          = (ascii ''{"type":"a"}\<newline>'' @ replicate 10 0x41)
            @ (ascii ''{"type":"frag"}'' @ replicate 4081 0x20)\<close>
    by (simp add: entry_before_fragment_def straddling_line_def)
  have len: \<open>length (ascii ''{"type":"frag"}'' @ replicate 4081 (0x20 :: byte)) = 4096\<close>
    by (simp add: ascii_def)
  show ?thesis
    unfolding eq by (rule tail_window_append[OF len])
qed

lemma entry_before_fragment_lines:
  \<open>window_lines entry_before_fragment
     = [js ''{"type":"a"}'', replicate 10 0x41 @ js ''{"type":"frag"}'' @ replicate 4081 SP]\<close>
proof -
  have d: \<open>utf8_decode 0 0 0x80 0xBF entry_before_fragment = map ucast entry_before_fragment\<close>
    by (rule utf8_decode_ascii)
       (auto simp: ascii_def straddling_line_def entry_before_fragment_def)
  have m: \<open>map ucast entry_before_fragment
          = js ''{"type":"a"}'' @ LF # (replicate 10 0x41 @ js ''{"type":"frag"}'' @ replicate 4081 SP)\<close>
    by (simp add: entry_before_fragment_def straddling_line_def ascii_def js_def)
  have 1: \<open>LF \<notin> set (js ''{"type":"a"}'')\<close> by (simp add: js_def)
  have 2: \<open>LF \<notin> set (replicate 10 0x41 @ js ''{"type":"frag"}'' @ replicate 4081 SP)\<close>
    by (simp add: js_def)
  show ?thesis
    unfolding window_lines_def d m
    by (simp only: split_on_first[OF 1] split_on_no_sep[OF 2])
qed

lemma letter_no_json: "JSON_parse (0x41 # s) = None"
  by (simp add: JSON_parse_def is_json_ws_def is_digit_def js_def)

lemma first_record_entry: \<open>entry_type (js ''{"type":"a"}'') = Some (js ''a'')\<close>
  by code_simp

lemma ten_letters: "replicate 10 (0x41 :: jschar) = 0x41 # replicate 9 0x41"
  by code_simp

lemma vt_record_lines: \<open>map JSON_parse (window_lines (tail_window vt_record)) = [None, None]\<close>
  by code_simp

lemma vt_record_scan: "last_entry (window_lines (tail_window vt_record)) = Some (js ''b'')"
  by code_simp

text \<open>
  Two files against the claim as worded. In the first a record is followed by the line
  of 4106 bytes: the record ends at byte 13, the window begins at byte 23, and of the
  two lines of the file only the first has an entry or parses at all; yet the reader
  returns the type found in the cut part of the second line, not \<open>null\<close>. In the
  second the only record begins with a vertical tab: no line of the window is a JSON
  text as it stands, and the reader returns the type of the record, not \<open>null\<close>.
\<close>

theorem fragment_and_trimmed_entries:
  \<open>length (ascii ''{"type":"a"}\<newline>'') = 13
   \<and> length entry_before_fragment - min 4096 (length entry_before_fragment) = 23
   \<and> window_lines entry_before_fragment
       = [js ''{"type":"a"}'', replicate 10 0x41 @ js ''{"type":"frag"}'' @ replicate 4081 SP]
   \<and> entry_type (js ''{"type":"a"}'') = Some (js ''a'')
   \<and> entry_type (replicate 10 0x41 @ js ''{"type":"frag"}'' @ replicate 4081 SP) = None
   \<and> JSON_parse (replicate 10 0x41 @ js ''{"type":"frag"}'' @ replicate 4081 SP) = None
   \<and> fst (readLastJsonlEntry (regular_file (js ''log'') entry_before_fragment 7) (js ''log''))
       = Returned (Some \<lparr>lastType = Some (js ''frag''), modifiedAt = 7\<rparr>)
   \<and> map JSON_parse (window_lines (tail_window vt_record)) = [None, None]
   \<and> fst (readLastJsonlEntry (regular_file (js ''log'') vt_record 7) (js ''log''))
       = Returned (Some \<lparr>lastType = Some (js ''b''), modifiedAt = 7\<rparr>)\<close>
proof -
  have a: \<open>length (ascii ''{"type":"a"}\<newline>'') = 13\<close> by (simp add: ascii_def)
  have b: "length entry_before_fragment - min 4096 (length entry_before_fragment) = 23"
    by (simp add: entry_before_fragment_length)
  have c: \<open>JSON_parse (replicate 10 0x41 @ js ''{"type":"frag"}'' @ replicate 4081 SP) = None\<close>
    unfolding ten_letters by (simp only: append_Cons letter_no_json)
  have ne: "entry_before_fragment \<noteq> []"
    using entry_before_fragment_length by auto
  have \<open>last_entry [js ''{"type":"frag"}'' @ replicate 4081 SP] = Some (js ''frag'')\<close>
    using last_entry_snoc[of "[]" \<open>js ''{"type":"frag"}'' @ replicate 4081 SP\<close>]
    by (simp add: fragment_line_entry)
  then have d: "fst (readLastJsonlEntry (regular_file (js ''log'') entry_before_fragment 7) (js ''log''))
       = Returned (Some \<lparr>lastType = Some (js ''frag''), modifiedAt = 7\<rparr>)"
    by (simp add: readLast_regular_file[OF ne] entry_before_fragment_window fragment_window_lines)
  have ne2: "vt_record \<noteq> []" by (simp add: vt_record_def)
  have e: "fst (readLastJsonlEntry (regular_file (js ''log'') vt_record 7) (js ''log''))
       = Returned (Some \<lparr>lastType = Some (js ''b''), modifiedAt = 7\<rparr>)"
    by (simp add: readLast_regular_file[OF ne2] vt_record_scan)
  from a b entry_before_fragment_lines first_record_entry whole_line_entry c d vt_record_lines e
  show ?thesis by blast
qed

text \<open>
  C7 (amended): for a file longer than the window of 4096 bytes, the first line of the
  decoded window is handled as every other line. The result has the type of the last
  entry among the later lines of the window if there is one, and otherwise the entry of
  the first line: nothing when the fragment is blank, fails to parse or is no object with
  a string as \<open>type\<close>, and its type when the fragment itself parses as such an object.
\<close>

theorem leading_fragment_like_any_line:
  "older \<noteq> [] \<and> length window = 4096
   \<longrightarrow> (\<exists>first rest. window_lines window = first # rest
          \<and> fst (readLastJsonlEntry (regular_file p (older @ window) m) p)
              = Returned (Some \<lparr>lastType = (case last_entry rest of
                                               Some t \<Rightarrow> Some t
                                             | None \<Rightarrow> entry_type first),
                                 modifiedAt = m\<rparr>))"
proof
  assume h: "older \<noteq> [] \<and> length window = 4096"
  obtain first rest where fr: "window_lines window = first # rest"
    using window_lines_not_Nil[of window] by (cases "window_lines window") auto
  from h have tw: "tail_window (older @ window) = window"
    by (intro tail_window_append) blast
  from h have ne: "older @ window \<noteq> []" by simp
  have "last_entry (first # rest)
          = (case last_entry rest of Some t \<Rightarrow> Some t | None \<Rightarrow> entry_type first)"
    using last_entry_append[of "[first]" rest] last_entry_snoc[of "[]" first]
    by (simp add: last_entry_Nil split: option.splits)
  with fr tw ne show "\<exists>first rest. window_lines window = first # rest
          \<and> fst (readLastJsonlEntry (regular_file p (older @ window) m) p)
              = Returned (Some \<lparr>lastType = (case last_entry rest of
                                               Some t \<Rightarrow> Some t
                                             | None \<Rightarrow> entry_type first),
                                 modifiedAt = m\<rparr>)"
    by (simp add: readLast_regular_file)
qed

theorem leading_fragment_like_any_line_witness:
  \<open>replicate 10 (0x41 :: byte) \<noteq> []
   \<and> length (ascii ''{"type":"frag"}'' @ replicate 4081 0x20) = 4096
   \<and> (\<exists>first rest. window_lines (ascii ''{"type":"frag"}'' @ replicate 4081 0x20) = first # rest
          \<and> fst (readLastJsonlEntry
                   (regular_file (js ''log'')
                      (replicate 10 0x41 @ ascii ''{"type":"frag"}'' @ replicate 4081 0x20) 7)
                   (js ''log''))
              = Returned (Some \<lparr>lastType = (case last_entry rest of
                                               Some t \<Rightarrow> Some t
                                             | None \<Rightarrow> entry_type first),
                                 modifiedAt = 7\<rparr>))\<close>
proof -
  have ne: "replicate 10 (0x41 :: byte) \<noteq> []" by simp
  have len: \<open>length (ascii ''{"type":"frag"}'' @ replicate 4081 0x20) = 4096\<close>
    by (simp add: ascii_def)
  from leading_fragment_like_any_line
         [of "replicate 10 0x41" \<open>ascii ''{"type":"frag"}'' @ replicate 4081 0x20\<close> "js ''log''" 7]
       ne len
  show ?thesis by blast
qed

text \<open>
  The file of 4106 bytes with one line: the line as a whole has no entry, the window
  begins inside it, and the reader returns the type found in the fragment.
\<close>

theorem type_taken_from_fragment:
  \<open>length straddling_line = 4106
   \<and> window_lines straddling_line
       = [replicate 10 0x41 @ js ''{"type":"frag"}'' @ replicate 4081 SP]
   \<and> entry_type (replicate 10 0x41 @ js ''{"type":"frag"}'' @ replicate 4081 SP) = None
   \<and> window_lines (tail_window straddling_line) = [js ''{"type":"frag"}'' @ replicate 4081 SP]
   \<and> fst (readLastJsonlEntry (regular_file (js ''log'') straddling_line 7) (js ''log''))
       = Returned (Some \<lparr>lastType = Some (js ''frag''), modifiedAt = 7\<rparr>)\<close>
proof (intro conjI)
  show "length straddling_line = 4106" by (rule straddling_length)
  show \<open>window_lines straddling_line
       = [replicate 10 0x41 @ js ''{"type":"frag"}'' @ replicate 4081 SP]\<close>
    by (rule straddling_whole_line)
  show \<open>entry_type (replicate 10 0x41 @ js ''{"type":"frag"}'' @ replicate 4081 SP) = None\<close>
    by (rule whole_line_entry)
  show wl: \<open>window_lines (tail_window straddling_line) = [js ''{"type":"frag"}'' @ replicate 4081 SP]\<close>
    by (simp only: straddling_window fragment_window_lines)
  have ne: "straddling_line \<noteq> []"
    using straddling_length by auto
  have \<open>last_entry [js ''{"type":"frag"}'' @ replicate 4081 SP] = Some (js ''frag'')\<close>
    using last_entry_snoc[of "[]" \<open>js ''{"type":"frag"}'' @ replicate 4081 SP\<close>]
    by (simp add: fragment_line_entry)
  with wl show \<open>fst (readLastJsonlEntry (regular_file (js ''log'') straddling_line 7) (js ''log''))
       = Returned (Some \<lparr>lastType = Some (js ''frag''), modifiedAt = 7\<rparr>)\<close>
    by (simp add: readLast_regular_file[OF ne])
qed


end
